theory Spec2Isabelle
  imports Main "HOL-Library.Multiset"
begin

section \<open>Profile builder (js/ai.js, buildTasteProfile)\<close>

text \<open>
  An entity record as buildTasteProfile reads it. Only the fields the function
  touches are kept. A rating is a nullable integer: \<open>None\<close> is the JavaScript
  \<open>null\<close> that addItem and unmarkWatched store. The genres field may be absent
  (records added before full details were stored), which is \<open>None\<close>.
  Genre names are catalogue names; names that are members of Object.prototype
  (such as "constructor") are outside the embedding, because the score table
  of the source is a plain object literal.
\<close>

record item =
  title :: string
  year :: string
  genres :: "string list option"
  watched :: bool
  rating :: "int option"
  "notes" :: string

text \<open>The JavaScript operators the function applies to a rating.\<close>

definition js_ge :: "int option \<Rightarrow> int \<Rightarrow> bool" where
  \<comment> \<open>\<open>r >= n\<close>: null converts to the number 0\<close>
  "js_ge r n = (case r of None \<Rightarrow> 0 \<ge> n | Some v \<Rightarrow> v \<ge> n)"

definition js_strict_eq :: "int option \<Rightarrow> int \<Rightarrow> bool" where
  \<comment> \<open>\<open>r === n\<close>: no conversion\<close>
  "js_strict_eq r n = (r = Some n)"

definition js_truthy :: "int option \<Rightarrow> bool" where
  \<comment> \<open>null and 0 are falsy\<close>
  "js_truthy r = (case r of None \<Rightarrow> False | Some v \<Rightarrow> v \<noteq> 0)"

definition js_or :: "int option \<Rightarrow> int \<Rightarrow> int" where
  \<comment> \<open>\<open>r || d\<close>\<close>
  "js_or r d = (case r of None \<Rightarrow> d | Some v \<Rightarrow> if v \<noteq> 0 then v else d)"

definition genres_or_empty :: "item \<Rightarrow> string list" where
  \<comment> \<open>\<open>i.genres || []\<close>: an array, even an empty one, is truthy\<close>
  "genres_or_empty i = (case genres i of None \<Rightarrow> [] | Some gs \<Rightarrow> gs)"

text \<open>The entries of the loved and liked lists.\<close>

record loved_entry =
  l_title :: string
  l_year :: string
  l_genres :: "string list"
  l_stars :: "int option"
  l_notes :: "string option"

record liked_entry =
  k_title :: string
  k_genres :: "string list"

definition loved_of :: "item \<Rightarrow> loved_entry" where
  \<comment> \<open>the notes key is present only for a non-empty string\<close>
  "loved_of i = \<lparr> l_title = title i, l_year = year i, l_genres = genres_or_empty i,
     l_stars = rating i, l_notes = (if notes i \<noteq> [] then Some (notes i) else None) \<rparr>"

definition liked_of :: "item \<Rightarrow> liked_entry" where
  "liked_of i = \<lparr> k_title = title i, k_genres = genres_or_empty i \<rparr>"

subsection \<open>The genre score table\<close>

text \<open>
  \<open>genreScore\<close> is an object used as a table from genre name to number. It is an
  association list in the order the keys were created; a key is created once
  and updated in place afterwards.

  The table holds the object's own keys, and the numbers are integers. The
  object is a plain \<open>{}\<close>, so in the code \<open>genreScore[g]\<close> also reads the members
  inherited from \<open>Object.prototype\<close> (for \<open>constructor\<close> a function, which is
  truthy, so that \<open>+ weight\<close> concatenates strings), and \<open>+\<close> adds IEEE doubles.
  The table is the code's object for the inputs of \<open>in_model\<close> below: genre names
  that are no member of \<open>Object.prototype\<close>, ratings null or 1 to 5, and few
  enough genre entries that every sum stays below \<open>2 ^ 53\<close>, where doubles add
  integers exactly. The theorems about scores and ranking assume \<open>in_model\<close>.
\<close>

type_synonym score_table = "(string \<times> int) list"

definition score_get :: "score_table \<Rightarrow> string \<Rightarrow> int" where
  \<comment> \<open>\<open>genreScore[g] || 0\<close>, for \<open>g\<close> no member of \<open>Object.prototype\<close>\<close>
  "score_get t g = (case map_of t g of None \<Rightarrow> 0 | Some s \<Rightarrow> s)"

fun score_put :: "score_table \<Rightarrow> string \<Rightarrow> int \<Rightarrow> score_table" where
  "score_put [] g v = [(g, v)]"
| "score_put ((k, s) # t) g v = (if k = g then (k, v) # t else (k, s) # score_put t g v)"

definition add_genre :: "int \<Rightarrow> score_table \<Rightarrow> string \<Rightarrow> score_table" where
  \<comment> \<open>\<open>genreScore[g] = (genreScore[g] || 0) + weight\<close>, for \<open>g\<close> no member of
      \<open>Object.prototype\<close> and sums below \<open>2 ^ 53\<close>\<close>
  "add_genre w t g = score_put t g (score_get t g + w)"

definition add_item :: "score_table \<Rightarrow> item \<Rightarrow> score_table" where
  \<comment> \<open>the body of \<open>watched.forEach\<close>\<close>
  "add_item t i = foldl (add_genre (js_or (rating i) 3)) t (genres_or_empty i)"

definition genreScore :: "item list \<Rightarrow> score_table" where
  "genreScore its = foldl add_item [] (filter watched its)"

text \<open>
  \<open>Object.entries\<close> lists the keys that are array indices first, in ascending
  numeric order, and the other keys after them in creation order. An array
  index is the canonical decimal form of an integer below \<open>2^32 - 1\<close>.
\<close>

definition is_digit :: "char \<Rightarrow> bool" where
  "is_digit c = (c \<in> set ''0123456789'')"

definition digits_value :: "string \<Rightarrow> nat" where
  "digits_value s = foldl (\<lambda>a c. 10 * a + (of_char c - 48)) 0 s"

definition is_array_index :: "string \<Rightarrow> bool" where
  "is_array_index s =
     (s \<noteq> [] \<and> list_all is_digit s \<and> (length s = 1 \<or> hd s \<noteq> CHR ''0'')
      \<and> digits_value s < 2 ^ 32 - 1)"

definition object_entries :: "score_table \<Rightarrow> score_table" where
  "object_entries t =
     sort_key (\<lambda>e. digits_value (fst e)) (filter (\<lambda>e. is_array_index (fst e)) t)
     @ filter (\<lambda>e. \<not> is_array_index (fst e)) t"

text \<open>
  \<open>.sort((a, b) => b[1] - a[1])\<close> is a stable sort by descending score:
  \<open>sort_key\<close> is the stable insertion sort, here on the negated score.
\<close>

definition sort_desc :: "score_table \<Rightarrow> score_table" where
  "sort_desc es = sort_key (\<lambda>e. - snd e) es"

record profile =
  loved :: "loved_entry list"
  liked :: "liked_entry list"
  watchedUnrated :: "string list"
  watchlist :: "string list"
  topGenres :: "string list"

text \<open>
  The personalNotes key (the trimmed free-text notes) is left out: it does not
  depend on the items.
\<close>

definition buildTasteProfile :: "item list \<Rightarrow> profile" where
  "buildTasteProfile its =
     (let ws = filter watched its in
      \<lparr> loved = map loved_of (filter (\<lambda>i. js_ge (rating i) 4) ws),
        liked = map liked_of (filter (\<lambda>i. js_strict_eq (rating i) 3) ws),
        watchedUnrated = map title (filter (\<lambda>i. \<not> js_truthy (rating i)) ws),
        watchlist = map title (filter (\<lambda>i. \<not> watched i) its),
        topGenres = map fst (take 8 (sort_desc (object_entries (genreScore its)))) \<rparr>)"

subsection \<open>The profile as the specification words it\<close>

text \<open>
  The data model gives a rating as null or an integer from 1 to 5; the rate
  dialog stores \<open>selectedRating || null\<close>, so no stored rating is 0.
\<close>

definition valid_rating :: "int option \<Rightarrow> bool" where
  "valid_rating r = (case r of None \<Rightarrow> True | Some v \<Rightarrow> 1 \<le> v \<and> v \<le> 5)"

text \<open>
  The specification's score of a genre: the sum, over the watched items that
  carry the genre, of the item's rating, and 3 for an item with no rating.
\<close>

definition spec_weight :: "item \<Rightarrow> int" where
  "spec_weight i = (case rating i of None \<Rightarrow> 3 | Some v \<Rightarrow> v)"

definition spec_score :: "item list \<Rightarrow> string \<Rightarrow> int" where
  "spec_score its g =
     sum_list (map spec_weight (filter (\<lambda>i. watched i \<and> g \<in> set (genres_or_empty i)) its))"

text \<open>
  First-seen order: the genre names of the watched items, in the order of
  their first occurrence. Sorting it with the stable \<open>sort_key\<close> on the negated
  score ranks by descending score and leaves tied names in first-seen order
  (lemma \<open>spec_ranking_stable_descending\<close> below).
\<close>

definition note_seen :: "string list \<Rightarrow> string \<Rightarrow> string list" where
  "note_seen acc g = (if g \<in> set acc then acc else acc @ [g])"

definition first_seen :: "item list \<Rightarrow> string list" where
  "first_seen its = foldl note_seen [] (concat (map genres_or_empty (filter watched its)))"

definition spec_topGenres :: "item list \<Rightarrow> string list" where
  "spec_topGenres its = take 8 (sort_key (\<lambda>g. - spec_score its g) (first_seen its))"

text \<open>
  A well-formed record: a rating of the data model, no genre listed twice, and
  no genre name that is an array index.
\<close>

definition record_ok :: "item \<Rightarrow> bool" where
  "record_ok i = (valid_rating (rating i) \<and> distinct (genres_or_empty i)
     \<and> list_all (\<lambda>g. \<not> is_array_index g) (genres_or_empty i))"

text \<open>
  The inputs on which the score table of the embedding is the code's
  \<open>genreScore\<close> object. The names below are the members of \<open>Object.prototype\<close>,
  which \<open>genreScore[g]\<close> reads on a plain object that has no own key \<open>g\<close>. A
  watched item is in the model when its rating is one of the data model and
  none of its genre names is such a member; a list is in the model when its
  watched items are and five times the number of their genre entries is below
  \<open>2 ^ 53\<close>, so that every partial sum is an integer that a double holds exactly.
\<close>

definition object_prototype_keys :: "string list" where
  "object_prototype_keys =
     [''constructor'', ''__proto__'', ''__defineGetter__'', ''__defineSetter__'',
      ''__lookupGetter__'', ''__lookupSetter__'', ''hasOwnProperty'', ''isPrototypeOf'',
      ''propertyIsEnumerable'', ''toLocaleString'', ''toString'', ''valueOf'']"

definition own_name :: "string \<Rightarrow> bool" where
  "own_name g = (g \<notin> set object_prototype_keys)"

definition item_in_model :: "item \<Rightarrow> bool" where
  "item_in_model i = (valid_rating (rating i) \<and> list_all own_name (genres_or_empty i))"

definition in_model :: "item list \<Rightarrow> bool" where
  "in_model its = (list_all item_in_model (filter watched its)
     \<and> 5 * length (concat (map genres_or_empty (filter watched its))) < 2 ^ 53)"

text \<open>A watched item rated 1 or 2.\<close>

definition low_rated :: "item \<Rightarrow> bool" where
  "low_rated i = (watched i \<and> (rating i = Some 1 \<or> rating i = Some 2))"

text \<open>Sample inputs.\<close>

definition sample :: "string \<Rightarrow> string list \<Rightarrow> bool \<Rightarrow> int option \<Rightarrow> item" where
  "sample t gs w r = \<lparr> title = t, year = ''2020'', genres = Some gs, watched = w, rating = r, notes = [] \<rparr>"

definition ex4 :: "item list" where
  "ex4 = [sample ''A'' [''Drama''] True (Some 5), sample ''B'' [''Drama''] True (Some 3),
          sample ''C'' [''Comedy''] True (Some 4)]"

definition ex6 :: "item list" where
  "ex6 = [sample ''A'' [''Drama''] True (Some 5), sample ''B'' [''Drama''] True (Some 3),
          sample ''C'' [''Comedy''] True None, sample ''D'' [''War''] True (Some 2),
          sample ''E'' [] False None, sample ''F'' [] True (Some 1), sample ''G'' [] True (Some 4)]"

definition ex9a :: "item list" where
  "ex9a = [sample ''A'' [''Drama''] True (Some 4), sample ''B'' [''Comedy''] True (Some 4)]"

definition ex9b :: "item list" where
  "ex9b = [sample ''B'' [''Comedy''] True (Some 4), sample ''A'' [''Drama''] True (Some 4)]"

definition ex9c :: "item list" where
  "ex9c = [sample ''C'' [''Comedy''] True (Some 4), sample ''B'' [''Drama''] True (Some 3),
           sample ''A'' [''Drama''] True (Some 5)]"

section \<open>The synchronized entity cache (js/store.js)\<close>

text \<open>
  A stored document is a JavaScript object: the list of its keys and values
  in creation order. A key that is absent reads as \<open>undefined\<close>, which is
  \<open>None\<close>. Numbers in the documents of this application are integers (ids,
  percent scores, millisecond timestamps, star ratings).
\<close>

datatype fval = FNull | FBool bool | FNum int | FStr string | FList "fval list"

type_synonym doc = "(string \<times> fval) list"

definition field :: "doc \<Rightarrow> string \<Rightarrow> fval option" where
  "field d k = map_of d k"

fun obj_set :: "('k \<times> 'v) list \<Rightarrow> 'k \<Rightarrow> 'v \<Rightarrow> ('k \<times> 'v) list" where
  \<comment> \<open>\<open>o[k] = v\<close>: an existing key keeps its place, a new key goes last\<close>
  "obj_set [] k v = [(k, v)]"
| "obj_set ((k', v') # d) k v = (if k' = k then (k, v) # d else (k', v') # obj_set d k v)"

definition obj_assign :: "doc \<Rightarrow> doc \<Rightarrow> doc" where
  \<comment> \<open>\<open>{...d, ...u}\<close>, and the merge of a partial update into a document\<close>
  "obj_assign d u = foldl (\<lambda>a kv. obj_set a (fst kv) (snd kv)) d u"

definition strict_eq :: "fval option \<Rightarrow> fval option \<Rightarrow> bool" where
  \<comment> \<open>\<open>a === b\<close> on values read from two records: arrays are compared by
      identity, and the arrays of two records are never the same array\<close>
  "strict_eq a b =
     (case (a, b) of
        (Some (FList _), _) \<Rightarrow> False
      | (_, Some (FList _)) \<Rightarrow> False
      | _ \<Rightarrow> a = b)"

text \<open>\<open>String(v)\<close>, which names the document of an id.\<close>

definition digit_char :: "nat \<Rightarrow> char" where
  "digit_char n = ''0123456789'' ! n"

fun nat_digits :: "nat \<Rightarrow> string" where
  "nat_digits n =
     (if n < 10 then [digit_char n] else nat_digits (n div 10) @ [digit_char (n mod 10)])"

definition int_string :: "int \<Rightarrow> string" where
  "int_string i = (if i < 0 then CHR ''-'' # nat_digits (nat (- i)) else nat_digits (nat i))"

fun join_comma :: "string list \<Rightarrow> string" where
  "join_comma [] = []"
| "join_comma [s] = s"
| "join_comma (s # t # ss) = s @ '','' @ join_comma (t # ss)"

fun fval_string :: "fval \<Rightarrow> string" where
  "fval_string FNull = ''null''"
| "fval_string (FBool b) = (if b then ''true'' else ''false'')"
| "fval_string (FNum i) = int_string i"
| "fval_string (FStr s) = s"
| "fval_string (FList vs) =
     join_comma (map (\<lambda>v. if v = FNull then [] else fval_string v) vs)"

definition js_String :: "fval option \<Rightarrow> string" where
  "js_String x = (case x of None \<Rightarrow> ''undefined'' | Some v \<Rightarrow> fval_string v)"

subsection \<open>The module state and the remote store\<close>

datatype category = Movie | Tv

datatype target = Coll category | Profile

datatype path = ItemDoc string category string | TasteDoc string

datatype store_write = SetDoc path doc | UpdateDoc path doc | DeleteDoc path

datatype store_error = RemoteUnavailable | NotFound

text \<open>
  The first four fields are the module variables of store.js (\<open>cache\<close>,
  \<open>profileCache.tasteNotes\<close>, \<open>currentUid\<close>, \<open>unsubscribers\<close>). The others are the
  collaborators: the listeners the remote store holds (id, user, target), the
  next listener id, the remote documents, the writes issued to the remote
  store, and the detail fetches issued to the catalogue.
\<close>

record world =
  cache :: "category \<Rightarrow> doc list"
  tasteNotes :: string
  currentUid :: "string option"
  unsubscribers :: "target \<Rightarrow> nat option"
  listeners :: "(nat \<times> string \<times> target) list"
  next_listener :: nat
  remote :: "path \<Rightarrow> doc option"
  writes :: "store_write list"
  fetches :: "(category \<times> fval option) list"

definition init_world :: world where
  "init_world = \<lparr> cache = (\<lambda>_. []), tasteNotes = [], currentUid = None,
     unsubscribers = (\<lambda>_. None), listeners = [], next_listener = 0,
     remote = (\<lambda>_. None), writes = [], fetches = [] \<rparr>"

definition uid_truthy :: "string option \<Rightarrow> bool" where
  \<comment> \<open>null, undefined and the empty string are falsy\<close>
  "uid_truthy u = (case u of None \<Rightarrow> False | Some s \<Rightarrow> s \<noteq> [])"

definition unsubscribe :: "target \<Rightarrow> world \<Rightarrow> world" where
  \<comment> \<open>\<open>unsubscribers.t?.(); unsubscribers.t = null\<close>\<close>
  "unsubscribe t w =
     (case unsubscribers w t of
        None \<Rightarrow> w
      | Some l \<Rightarrow> w\<lparr> listeners := filter (\<lambda>e. fst e \<noteq> l) (listeners w),
                    unsubscribers := (unsubscribers w)(t := None) \<rparr>)"

definition onSnapshot :: "string \<Rightarrow> target \<Rightarrow> world \<Rightarrow> world" where
  \<comment> \<open>\<open>unsubscribers.t = onSnapshot(...)\<close>\<close>
  "onSnapshot u t w =
     w\<lparr> listeners := listeners w @ [(next_listener w, u, t)],
        unsubscribers := (unsubscribers w)(t := Some (next_listener w)),
        next_listener := Suc (next_listener w) \<rparr>"

definition setUser :: "string option \<Rightarrow> world \<Rightarrow> world" where
  "setUser uid w =
     (let w1 = unsubscribe Profile (unsubscribe (Coll Tv) (unsubscribe (Coll Movie) w));
          w2 = w1\<lparr> currentUid := uid \<rparr>
      in case uid of
           None \<Rightarrow> w2\<lparr> cache := (\<lambda>_. []), tasteNotes := [] \<rparr>
         | Some u \<Rightarrow>
             if u = [] then w2\<lparr> cache := (\<lambda>_. []), tasteNotes := [] \<rparr>
             else onSnapshot u Profile (onSnapshot u (Coll Tv) (onSnapshot u (Coll Movie) w2)))"

text \<open>
  A collection snapshot delivered to a listener that is still registered: the
  callback replaces the cached list of its category. (Snapshots of the
  taste-notes document are not modelled.)
\<close>

definition deliver :: "nat \<Rightarrow> doc list \<Rightarrow> world \<Rightarrow> world" where
  "deliver l docs w =
     (case map_of (listeners w) l of
        Some (u, Coll c) \<Rightarrow> w\<lparr> cache := (cache w)(c := docs) \<rparr>
      | _ \<Rightarrow> w)"

definition getAll :: "category \<Rightarrow> world \<Rightarrow> doc list" where
  "getAll c w = cache w c"

definition getItem :: "category \<Rightarrow> fval option \<Rightarrow> world \<Rightarrow> doc option" where
  \<comment> \<open>\<open>cache[type].find(i => i.tmdbId === tmdbId) || null\<close>\<close>
  "getItem c tid w = find (\<lambda>i. strict_eq (field i ''tmdbId'') tid) (cache w c)"

definition ref :: "string \<Rightarrow> category \<Rightarrow> fval option \<Rightarrow> path" where
  "ref u c tid = ItemDoc u c (js_String tid)"

text \<open>
  The remote store accepts or rejects each write; \<open>acc\<close> says which. A rejected
  write rejects the promise the caller awaits. An update of a document that
  does not exist is rejected by the remote store.
\<close>

definition setDoc :: "(store_write \<Rightarrow> bool) \<Rightarrow> path \<Rightarrow> doc \<Rightarrow> world \<Rightarrow> (store_error + unit) \<times> world" where
  "setDoc acc p d w =
     (let w1 = w\<lparr> writes := writes w @ [SetDoc p d] \<rparr>
      in if acc (SetDoc p d) then (Inr (), w1\<lparr> remote := (remote w1)(p \<mapsto> d) \<rparr>)
         else (Inl RemoteUnavailable, w1))"

definition updateDoc :: "(store_write \<Rightarrow> bool) \<Rightarrow> path \<Rightarrow> doc \<Rightarrow> world \<Rightarrow> (store_error + unit) \<times> world" where
  "updateDoc acc p u w =
     (let w1 = w\<lparr> writes := writes w @ [UpdateDoc p u] \<rparr>
      in case remote w p of
           None \<Rightarrow> (Inl NotFound, w1)
         | Some d \<Rightarrow>
             if acc (UpdateDoc p u) then (Inr (), w1\<lparr> remote := (remote w1)(p \<mapsto> obj_assign d u) \<rparr>)
             else (Inl RemoteUnavailable, w1))"

definition new_item :: "doc \<Rightarrow> int \<Rightarrow> doc" where
  \<comment> \<open>\<open>{ ...item, addedAt: Date.now(), watched: false, rating: null, notes: '' }\<close>\<close>
  "new_item item now =
     obj_assign item [(''addedAt'', FNum now), (''watched'', FBool False),
                      (''rating'', FNull), (''notes'', FStr [])]"

definition addItem ::
  "(store_write \<Rightarrow> bool) \<Rightarrow> int \<Rightarrow> category \<Rightarrow> doc \<Rightarrow> world \<Rightarrow> (store_error + bool) \<times> world" where
  "addItem acc now c item w =
     (case currentUid w of
        None \<Rightarrow> (Inr False, w)
      | Some u \<Rightarrow>
          if u = [] then (Inr False, w)
          else if find (\<lambda>i. strict_eq (field i ''tmdbId'') (field item ''tmdbId'')) (cache w c) \<noteq> None
          then (Inr False, w)
          else (case setDoc acc (ref u c (field item ''tmdbId'')) (new_item item now) w of
                  (Inl e, w') \<Rightarrow> (Inl e, w')
                | (Inr _, w') \<Rightarrow> (Inr True, w')))"

definition patchItem ::
  "(store_write \<Rightarrow> bool) \<Rightarrow> category \<Rightarrow> fval option \<Rightarrow> doc \<Rightarrow> world \<Rightarrow> (store_error + unit) \<times> world" where
  "patchItem acc c tid updates w =
     (case currentUid w of
        None \<Rightarrow> (Inr (), w)
      | Some u \<Rightarrow> if u = [] then (Inr (), w) else updateDoc acc (ref u c tid) updates w)"

section \<open>Backfill reconciliation (backfillMissingData)\<close>

definition loose_null :: "fval option \<Rightarrow> bool" where
  \<comment> \<open>\<open>x == null\<close>: undefined or null\<close>
  "loose_null x = (x = None \<or> x = Some FNull)"

definition has_length :: "fval option \<Rightarrow> bool" where
  \<comment> \<open>\<open>x?.length\<close> is truthy: a non-empty array or string\<close>
  "has_length x =
     (case x of Some (FList vs) \<Rightarrow> vs \<noteq> [] | Some (FStr s) \<Rightarrow> s \<noteq> [] | _ \<Rightarrow> False)"

definition needs_backfill :: "doc \<Rightarrow> bool" where
  "needs_backfill i =
     (loose_null (field i ''tmdbRating'') \<or> \<not> has_length (field i ''genres'')
      \<or> field i ''releaseDate'' = None \<or> \<not> has_length (field i ''genreIds''))"

definition build_updates :: "doc \<Rightarrow> doc" where
  "build_updates details =
     (case field details ''tmdbRating'' of
        Some v \<Rightarrow> if v \<noteq> FNull then [(''tmdbRating'', v)] else []
      | None \<Rightarrow> [])
     @ (case field details ''genres'' of
        Some v \<Rightarrow> if has_length (Some v) then [(''genres'', v)] else []
      | None \<Rightarrow> [])
     @ (case field details ''genreIds'' of
        Some v \<Rightarrow> if has_length (Some v) then [(''genreIds'', v)] else []
      | None \<Rightarrow> [])
     @ (case field details ''releaseDate'' of
        Some v \<Rightarrow> [(''releaseDate'', v)]
      | None \<Rightarrow> [])"

text \<open>
  The detail fetch is the catalogue's: \<open>fetch c tid\<close> is what getMovieDetails or
  getTVDetails returns for the id, or the error it throws. The body of the
  inner loop swallows every error.
\<close>

datatype fetch_error = FetchFailed

definition backfill_item ::
  "(category \<Rightarrow> fval option \<Rightarrow> fetch_error + doc) \<Rightarrow> (store_write \<Rightarrow> bool) \<Rightarrow> category
     \<Rightarrow> world \<Rightarrow> doc \<Rightarrow> world" where
  "backfill_item fetch acc c w item =
     (let tid = field item ''tmdbId'';
          w1 = w\<lparr> fetches := fetches w @ [(c, tid)] \<rparr>
      in case fetch c tid of
           Inl _ \<Rightarrow> w1
         | Inr details \<Rightarrow>
             (let updates = build_updates details
              in if updates = [] then w1 else snd (patchItem acc c tid updates w1)))"

definition backfill_type ::
  "(category \<Rightarrow> fval option \<Rightarrow> fetch_error + doc) \<Rightarrow> (store_write \<Rightarrow> bool) \<Rightarrow> world
     \<Rightarrow> category \<Rightarrow> world" where
  "backfill_type fetch acc w c =
     foldl (backfill_item fetch acc c) w (filter needs_backfill (getAll c w))"

definition backfillMissingData ::
  "(category \<Rightarrow> fval option \<Rightarrow> fetch_error + doc) \<Rightarrow> (store_write \<Rightarrow> bool) \<Rightarrow> world \<Rightarrow> world" where
  "backfillMissingData fetch acc w = foldl (backfill_type fetch acc) w [Movie, Tv]"

section \<open>Vocabulary of the claims about the cache and the backfill\<close>

text \<open>An entity with the candidate's id is in the cached list of the category.\<close>

definition already_present :: "category \<Rightarrow> doc \<Rightarrow> world \<Rightarrow> bool" where
  "already_present c e w =
     list_ex (\<lambda>i. strict_eq (field i ''tmdbId'') (field e ''tmdbId'')) (getAll c w)"

text \<open>The user-owned fields, and a write that patches none of them.\<close>

definition user_owned :: "string list" where
  "user_owned = [''watched'', ''watchedAt'', ''rating'', ''notes'']"

definition user_fields :: "doc \<Rightarrow> fval option list" where
  "user_fields d = map (field d) user_owned"

definition spares_user_fields :: "store_write \<Rightarrow> bool" where
  "spares_user_fields wr =
     (case wr of
        UpdateDoc p u \<Rightarrow> list_all (\<lambda>k. k \<notin> set user_owned) (map fst u)
      | SetDoc p d \<Rightarrow> False
      | DeleteDoc p \<Rightarrow> False)"

definition descriptive :: "string list" where
  "descriptive = [''tmdbRating'', ''genres'', ''genreIds'', ''releaseDate'']"

text \<open>
  What a step of the backfill leaves alone: the cache, the bound identity, the
  user-owned fields of every remote document, and the writes issued before it;
  and every write it issues is a patch that spares the user-owned fields.
\<close>

definition frame :: "world \<Rightarrow> world \<Rightarrow> bool" where
  "frame w w' =
     (cache w' = cache w \<and> currentUid w' = currentUid w
      \<and> (\<forall>p. map_option user_fields (remote w' p) = map_option user_fields (remote w p))
      \<and> take (length (writes w)) (writes w') = writes w
      \<and> list_all spares_user_fields (drop (length (writes w)) (writes w')))"

text \<open>
  The descriptive fields a record is missing, in the specification's words: no
  catalogue score, no genres, no genre codes, an undefined release date.
\<close>

definition missing_fields :: "doc \<Rightarrow> string list" where
  "missing_fields i =
     (if loose_null (field i ''tmdbRating'') then [''tmdbRating''] else [])
     @ (if \<not> has_length (field i ''genres'') then [''genres''] else [])
     @ (if \<not> has_length (field i ''genreIds'') then [''genreIds''] else [])
     @ (if field i ''releaseDate'' = None then [''releaseDate''] else [])"

definition needing :: "category \<Rightarrow> world \<Rightarrow> doc list" where
  "needing c w = filter (\<lambda>i. missing_fields i \<noteq> []) (getAll c w)"

text \<open>
  The value a fetched detail provides for a descriptive field: a score that is
  not null, a non-empty genre or genre-code list, a release date that is
  defined (null included).
\<close>

definition catalog_value :: "doc \<Rightarrow> string \<Rightarrow> fval option" where
  "catalog_value d k =
     (if k = ''tmdbRating'' then (if loose_null (field d k) then None else field d k)
      else if k = ''genres'' \<or> k = ''genreIds'' then (if has_length (field d k) then field d k else None)
      else if k = ''releaseDate'' then field d k
      else None)"

text \<open>
  The patch the backfill issues for one record: none when the fetch fails, when
  the detail provides no field or when no identity is bound.
\<close>

definition patches_for ::
  "(category \<Rightarrow> fval option \<Rightarrow> fetch_error + doc) \<Rightarrow> string option \<Rightarrow> category \<Rightarrow> doc
     \<Rightarrow> store_write list" where
  "patches_for fetch uid c i =
     (case (fetch c (field i ''tmdbId''), uid) of
        (Inr d, Some u) \<Rightarrow>
          if u \<noteq> [] \<and> build_updates d \<noteq> []
          then [UpdateDoc (ref u c (field i ''tmdbId'')) (build_updates d)] else []
      | _ \<Rightarrow> [])"

text \<open>Sample worlds.\<close>

definition sample_doc :: doc where
  "sample_doc = [(''tmdbId'', FNum 603), (''title'', FStr ''The Matrix''),
     (''genres'', FList [FStr ''Action'']), (''watched'', FBool True), (''rating'', FNum 5)]"

definition signed_in_world :: world where
  "signed_in_world = deliver 0 [sample_doc] (setUser (Some ''alice'') init_world)"

definition other_doc :: doc where
  "other_doc = [(''tmdbId'', FNum 604), (''title'', FStr ''The Matrix Reloaded''),
     (''watched'', FBool True)]"

definition accept_all :: "store_write \<Rightarrow> bool" where
  "accept_all wr = True"

text \<open>A remote store that rejects every write (offline, or denied by the rules).\<close>

definition reject_all :: "store_write \<Rightarrow> bool" where
  "reject_all wr = False"

definition stale_doc :: doc where
  "stale_doc = [(''tmdbId'', FNum 603), (''title'', FStr ''The Matrix''),
     (''releaseDate'', FStr ''1999-03-30''), (''genres'', FList [FStr ''Drama'']),
     (''genreIds'', FList [FNum 18]), (''watched'', FBool True), (''rating'', FNum 5),
     (''notes'', FStr ''again'')]"

definition catalog_doc :: doc where
  "catalog_doc = [(''tmdbId'', FNum 603), (''title'', FStr ''The Matrix''),
     (''releaseDate'', FStr ''1999-03-31''), (''tmdbRating'', FNum 82),
     (''genres'', FList [FStr ''Action'', FStr ''Science Fiction'']),
     (''genreIds'', FList [FNum 28, FNum 878])]"

definition sample_fetch :: "category \<Rightarrow> fval option \<Rightarrow> fetch_error + doc" where
  "sample_fetch c tid = (if c = Movie \<and> tid = Some (FNum 603) then Inr catalog_doc else Inl FetchFailed)"

definition stale_world :: world where
  "stale_world =
     (deliver 0 [stale_doc] (setUser (Some ''alice'') init_world))
       \<lparr> remote := [ItemDoc ''alice'' Movie ''603'' \<mapsto> stale_doc] \<rparr>"

section \<open>Resolution of recommendation picks (submitAIPrompt)\<close>










datatype ai_error = AiError




section \<open>The askAI function (functions/index.js)\<close>

text \<open>
  The text the generator returns is a JavaScript string: a list of UTF-16 code
  units. \<open>js\<close> turns a literal of this theory into such a list.
\<close>

type_synonym jstring = "nat list"

definition js :: "string \<Rightarrow> jstring" where
  "js s = map of_char s"

subsection \<open>JSON.parse\<close>

text \<open>
  The values of JSON. A number is kept as the integer of its digits and a
  decimal exponent: \<open>JNum m e\<close> is \<open>m * 10^e\<close>. An object holds each key once;
  a repeated key takes the later value.
\<close>

datatype json = JNull | JBool bool | JNum int int | JStr jstring | JArr "json list"
  | JObj "(jstring \<times> json) list"

definition is_ws :: "nat \<Rightarrow> bool" where
  \<comment> \<open>space, tab, line feed, carriage return\<close>
  "is_ws c = (c = 32 \<or> c = 9 \<or> c = 10 \<or> c = 13)"

definition skip_ws :: "jstring \<Rightarrow> jstring" where
  "skip_ws s = dropWhile is_ws s"

definition is_dec :: "nat \<Rightarrow> bool" where
  "is_dec c = (48 \<le> c \<and> c \<le> 57)"

definition dec_value :: "jstring \<Rightarrow> nat" where
  "dec_value ds = foldl (\<lambda>a c. 10 * a + (c - 48)) 0 ds"

definition hex_digit :: "nat \<Rightarrow> nat option" where
  "hex_digit c =
     (if 48 \<le> c \<and> c \<le> 57 then Some (c - 48)
      else if 97 \<le> c \<and> c \<le> 102 then Some (c - 87)
      else if 65 \<le> c \<and> c \<le> 70 then Some (c - 55)
      else None)"

definition hex4 :: "jstring \<Rightarrow> nat option" where
  "hex4 hs =
     (case map hex_digit hs of
        [Some a, Some b, Some c, Some d] \<Rightarrow> Some (((a * 16 + b) * 16 + c) * 16 + d)
      | _ \<Rightarrow> None)"

definition simple_escape :: "nat \<Rightarrow> nat option" where
  \<comment> \<open>quote, backslash, slash, and b f n r t\<close>
  "simple_escape e =
     (if e = 34 \<or> e = 92 \<or> e = 47 then Some e
      else if e = 98 then Some 8
      else if e = 102 then Some 12
      else if e = 110 then Some 10
      else if e = 114 then Some 13
      else if e = 116 then Some 9
      else None)"

text \<open>
  The rest of a string after its opening quote: the decoded code units and the
  input after the closing quote. A control character, a bad escape or the end
  of the input is an error.
\<close>

fun scan_string :: "jstring \<Rightarrow> jstring \<Rightarrow> (jstring \<times> jstring) option" where
  "scan_string [] acc = None"
| "scan_string (c # cs) acc =
     (if c = 34 then Some (acc, cs)
      else if c = 92 then
        (case cs of
           [] \<Rightarrow> None
         | e # r \<Rightarrow>
             if e = 117 then
               (case hex4 (take 4 r) of
                  None \<Rightarrow> None
                | Some u \<Rightarrow> scan_string (drop 4 r) (acc @ [u]))
             else
               (case simple_escape e of
                  None \<Rightarrow> None
                | Some v \<Rightarrow> scan_string r (acc @ [v])))
      else if c < 32 then None
      else scan_string cs (acc @ [c]))"

text \<open>
  A number: an optional minus, an integer part without a leading zero, an
  optional fraction and an optional exponent, each with at least one digit.
\<close>

definition scan_number :: "jstring \<Rightarrow> (json \<times> jstring) option" where
  "scan_number s =
     (let neg = (case s of c # _ \<Rightarrow> c = 45 | [] \<Rightarrow> False);
          s1 = (if neg then tl s else s);
          ds = takeWhile is_dec s1;
          s2 = dropWhile is_dec s1;
          has_frac = (case s2 of c # _ \<Rightarrow> c = 46 | [] \<Rightarrow> False);
          fs = (if has_frac then takeWhile is_dec (tl s2) else []);
          s3 = (if has_frac then dropWhile is_dec (tl s2) else s2);
          has_exp = (case s3 of c # _ \<Rightarrow> c = 101 \<or> c = 69 | [] \<Rightarrow> False);
          s4 = (if has_exp then tl s3 else s3);
          eneg = (case s4 of c # _ \<Rightarrow> has_exp \<and> c = 45 | [] \<Rightarrow> False);
          epos = (case s4 of c # _ \<Rightarrow> has_exp \<and> c = 43 | [] \<Rightarrow> False);
          s5 = (if eneg \<or> epos then tl s4 else s4);
          es = (if has_exp then takeWhile is_dec s5 else []);
          s6 = (if has_exp then dropWhile is_dec s5 else s3);
          m = int (dec_value (ds @ fs));
          e = int (dec_value es)
      in if ds = [] \<or> (length ds > 1 \<and> hd ds = 48) \<or> (has_frac \<and> fs = []) \<or> (has_exp \<and> es = [])
         then None
         else Some (JNum (if neg then - m else m) ((if eneg then - e else e) - int (length fs)), s6))"

text \<open>
  The parser descends with fuel; \<open>json_parse\<close> gives it more fuel than the
  input has characters, which is always enough (lemma \<open>parse_never_out_of_fuel\<close>).
  The four modes are the places of the grammar: a value; the rest of an array
  after an element; a member of an object; the rest of an object after a
  member.
\<close>

datatype outcome = Parsed json jstring | SyntaxError | OutOfFuel

datatype pmode = PValue | PElements "json list" | PMember "(jstring \<times> json) list"
  | PMembers "(jstring \<times> json) list"

definition and_then :: "outcome \<Rightarrow> (json \<Rightarrow> jstring \<Rightarrow> outcome) \<Rightarrow> outcome" where
  "and_then p f = (case p of Parsed v r \<Rightarrow> f v r | SyntaxError \<Rightarrow> SyntaxError | OutOfFuel \<Rightarrow> OutOfFuel)"

definition value_step :: "(pmode \<Rightarrow> jstring \<Rightarrow> outcome) \<Rightarrow> jstring \<Rightarrow> outcome" where
  "value_step rec s =
     (case skip_ws s of
        [] \<Rightarrow> SyntaxError
      | c # r \<Rightarrow>
          if c = 123 then
            (case skip_ws r of
               [] \<Rightarrow> SyntaxError
             | d # r' \<Rightarrow> if d = 125 then Parsed (JObj []) r' else rec (PMember []) (d # r'))
          else if c = 91 then
            (case skip_ws r of
               [] \<Rightarrow> SyntaxError
             | d # r' \<Rightarrow>
                 if d = 93 then Parsed (JArr []) r'
                 else and_then (rec PValue (d # r')) (\<lambda>v r''. rec (PElements [v]) r''))
          else if c = 34 then
            (case scan_string r [] of
               None \<Rightarrow> SyntaxError
             | Some (str, r') \<Rightarrow> Parsed (JStr str) r')
          else if take 4 (c # r) = js ''true'' then Parsed (JBool True) (drop 4 (c # r))
          else if take 5 (c # r) = js ''false'' then Parsed (JBool False) (drop 5 (c # r))
          else if take 4 (c # r) = js ''null'' then Parsed JNull (drop 4 (c # r))
          else (case scan_number (c # r) of
                  None \<Rightarrow> SyntaxError
                | Some (v, r') \<Rightarrow> Parsed v r'))"

definition elements_step ::
  "(pmode \<Rightarrow> jstring \<Rightarrow> outcome) \<Rightarrow> json list \<Rightarrow> jstring \<Rightarrow> outcome" where
  "elements_step rec acc s =
     (case skip_ws s of
        [] \<Rightarrow> SyntaxError
      | c # r \<Rightarrow>
          if c = 93 then Parsed (JArr acc) r
          else if c = 44 then and_then (rec PValue r) (\<lambda>v r'. rec (PElements (acc @ [v])) r')
          else SyntaxError)"

definition member_step ::
  "(pmode \<Rightarrow> jstring \<Rightarrow> outcome) \<Rightarrow> (jstring \<times> json) list \<Rightarrow> jstring \<Rightarrow> outcome" where
  "member_step rec acc s =
     (case skip_ws s of
        [] \<Rightarrow> SyntaxError
      | c # r \<Rightarrow>
          if c = 34 then
            (case scan_string r [] of
               None \<Rightarrow> SyntaxError
             | Some (k, r1) \<Rightarrow>
                 (case skip_ws r1 of
                    [] \<Rightarrow> SyntaxError
                  | d # r2 \<Rightarrow>
                      if d = 58
                      then and_then (rec PValue r2) (\<lambda>v r3. rec (PMembers (obj_set acc k v)) r3)
                      else SyntaxError))
          else SyntaxError)"

definition members_step ::
  "(pmode \<Rightarrow> jstring \<Rightarrow> outcome) \<Rightarrow> (jstring \<times> json) list \<Rightarrow> jstring \<Rightarrow> outcome" where
  "members_step rec acc s =
     (case skip_ws s of
        [] \<Rightarrow> SyntaxError
      | c # r \<Rightarrow>
          if c = 125 then Parsed (JObj acc) r
          else if c = 44 then rec (PMember acc) r
          else SyntaxError)"

primrec parse :: "nat \<Rightarrow> pmode \<Rightarrow> jstring \<Rightarrow> outcome" where
  "parse 0 = (\<lambda>m s. OutOfFuel)"
| "parse (Suc n) =
     (\<lambda>m s. case m of
        PValue \<Rightarrow> value_step (parse n) s
      | PElements acc \<Rightarrow> elements_step (parse n) acc s
      | PMember acc \<Rightarrow> member_step (parse n) acc s
      | PMembers acc \<Rightarrow> members_step (parse n) acc s)"

definition json_parse :: "jstring \<Rightarrow> json option" where
  \<comment> \<open>one value, with nothing but white space after it\<close>
  "json_parse s =
     (case parse (Suc (length s)) PValue s of
        Parsed v r \<Rightarrow> if skip_ws r = [] then Some v else None
      | SyntaxError \<Rightarrow> None
      | OutOfFuel \<Rightarrow> None)"

subsection \<open>The response text and its classification\<close>

text \<open>
  \<open>raw.match(/\{[\s\S]*\}/)\<close>: the leftmost match starts at the first opening
  brace and, the star being greedy, ends at the last closing brace after it.
\<close>

definition brace_span :: "jstring \<Rightarrow> jstring option" where
  "brace_span raw =
     (let s = dropWhile (\<lambda>c. c \<noteq> 123) raw
      in if 125 \<in> set s then Some (rev (dropWhile (\<lambda>c. c \<noteq> 125) (rev s))) else None)"

text \<open>
  A content block of the message carries a text or not. The raw text is
  \<open>message.content[0]?.text || '{}'\<close>; the empty string is falsy.
\<close>

definition raw_text :: "jstring option list \<Rightarrow> jstring" where
  "raw_text content =
     (case content of
        [] \<Rightarrow> js ''{}''
      | b # _ \<Rightarrow> (case b of None \<Rightarrow> js ''{}'' | Some t \<Rightarrow> if t = [] then js ''{}'' else t))"

text \<open>
  Truthiness of a parsed value. A number is falsy when it is zero as a double:
  its digits are zero, or its magnitude is at most \<open>2^-1075\<close> and rounds to zero.
\<close>

definition json_truthy :: "json \<Rightarrow> bool" where
  "json_truthy v =
     (case v of
        JNull \<Rightarrow> False
      | JBool b \<Rightarrow> b
      | JNum m e \<Rightarrow> m \<noteq> 0 \<and> (0 \<le> e \<or> 10 ^ nat (- e) < \<bar>m\<bar> * 2 ^ 1075)
      | JStr s \<Rightarrow> s \<noteq> []
      | JArr _ \<Rightarrow> True
      | JObj _ \<Rightarrow> True)"

definition or_default :: "json option \<Rightarrow> json \<Rightarrow> json" where
  \<comment> \<open>\<open>x || d\<close>\<close>
  "or_default x d = (case x of None \<Rightarrow> d | Some v \<Rightarrow> if json_truthy v then v else d)"

definition get_prop :: "json \<Rightarrow> string \<Rightarrow> json option" where
  \<comment> \<open>\<open>parsed.k\<close> for the four keys read here, which no prototype defines\<close>
  "get_prop v k = (case v of JObj fs \<Rightarrow> map_of fs (js k) | _ \<Rightarrow> None)"

datatype https_code = Unauthenticated | InvalidArgument | Internal

datatype https_error = HttpsError https_code string

datatype ai_reply = ReplyRecommendations json | ReplyAnswer json json

definition classify :: "json \<Rightarrow> https_error + ai_reply" where
  \<comment> \<open>reading a property of null throws a TypeError, which the catch wraps\<close>
  "classify parsed =
     (if parsed = JNull then Inl (HttpsError Internal ''AI request failed.'')
      else if get_prop parsed ''type'' = Some (JStr (js ''recommendations''))
      then Inr (ReplyRecommendations (or_default (get_prop parsed ''items'') (JArr [])))
      else if get_prop parsed ''type'' = Some (JStr (js ''answer''))
      then Inr (ReplyAnswer (or_default (get_prop parsed ''heading'') (JStr []))
                            (or_default (get_prop parsed ''text'') (JStr [])))
      else Inl (HttpsError Internal ''Unexpected AI response type.''))"

definition respond :: "jstring \<Rightarrow> https_error + ai_reply" where
  \<comment> \<open>lines 107 to 125: from the raw text to the reply or the error\<close>
  "respond raw =
     (case brace_span raw of
        None \<Rightarrow> Inl (HttpsError Internal ''Unexpected AI response format.'')
      | Some s \<Rightarrow>
          (case json_parse s of
             None \<Rightarrow> Inl (HttpsError Internal ''AI request failed.'')
           | Some parsed \<Rightarrow> classify parsed))"

text \<open>
  The request: whether it is authenticated, its prompt when that is a string,
  and whether the key is configured. \<open>api\<close> is the outcome of the call of the
  generator: the content blocks of the message, or the error thrown.
\<close>

record request =
  auth :: bool
  prompt :: "jstring option"
  key_configured :: bool

datatype api_error = ApiError

definition js_space :: "nat \<Rightarrow> bool" where
  \<comment> \<open>the white space and line terminators that \<open>trim\<close> removes\<close>
  "js_space c =
     (c \<in> set [9, 10, 11, 12, 13, 32, 160, 5760, 8232, 8233, 8239, 8287, 12288, 65279]
      \<or> (8192 \<le> c \<and> c \<le> 8202))"

definition askAI :: "request \<Rightarrow> api_error + jstring option list \<Rightarrow> https_error + ai_reply" where
  "askAI req api =
     (if \<not> auth req then Inl (HttpsError Unauthenticated ''Must be signed in.'')
      else if (case prompt req of None \<Rightarrow> True | Some p \<Rightarrow> list_all js_space p)
      then Inl (HttpsError InvalidArgument ''Prompt is required.'')
      else if \<not> key_configured req then Inl (HttpsError Internal ''AI not configured.'')
      else (case api of
              Inl _ \<Rightarrow> Inl (HttpsError Internal ''AI request failed.'')
            | Inr content \<Rightarrow> respond (raw_text content)))"









section \<open>Vocabulary of the claims about askAI\<close>

text \<open>
  The three errors of the response handling: no brace span in the text; a type
  that is neither of the two kinds; and the error the outer \<open>catch\<close> makes of
  every exception that is not an HttpsError (a JSON syntax error, and also a
  failed call of the generator).
\<close>

definition format_error :: https_error where
  "format_error = HttpsError Internal ''Unexpected AI response format.''"

definition type_error :: https_error where
  "type_error = HttpsError Internal ''Unexpected AI response type.''"

definition request_failed :: https_error where
  "request_failed = HttpsError Internal ''AI request failed.''"

text \<open>\<open>parsed.items || []\<close> and \<open>parsed.k || ''\<close> on the members of an object.\<close>

definition items_or_empty :: "(jstring \<times> json) list \<Rightarrow> json" where
  "items_or_empty fs =
     (case map_of fs (js ''items'') of
        None \<Rightarrow> JArr []
      | Some v \<Rightarrow> if json_truthy v then v else JArr [])"

definition text_or_empty :: "(jstring \<times> json) list \<Rightarrow> string \<Rightarrow> json" where
  "text_or_empty fs k =
     (case map_of fs (js k) of
        None \<Rightarrow> JStr []
      | Some v \<Rightarrow> if json_truthy v then v else JStr [])"

text \<open>
  The message has no text: no content block, or a first block without a text
  or with the empty text. A request that passes the guards of askAI.
\<close>

definition no_text :: "jstring option list \<Rightarrow> bool" where
  "no_text content = (case content of [] \<Rightarrow> True | b # _ \<Rightarrow> b = None \<or> b = Some [])"

definition valid_request :: "request \<Rightarrow> bool" where
  "valid_request req =
     (auth req \<and> (case prompt req of None \<Rightarrow> False | Some p \<Rightarrow> \<not> list_all js_space p)
      \<and> key_configured req)"

text \<open>Sample requests and response texts.\<close>

definition sample_request :: request where
  "sample_request = \<lparr> auth = True, prompt = Some (js ''something tense''), key_configured = True \<rparr>"

definition prose_text :: jstring where
  "prose_text = js ''foo {\"type\":\"answer\",\"heading\":\"H\",\"text\":\"T\"} bar''"

definition payload_text :: jstring where
  "payload_text = js ''{\"type\":\"answer\",\"heading\":\"H\",\"text\":\"T\"}''"

definition weird_text :: jstring where
  "weird_text = js ''{\"type\":\"weird\"}''"

definition bare_text :: jstring where
  "bare_text = js ''{\"type\":\"recommendations\"}''"

definition bare_answer_text :: jstring where
  "bare_answer_text = js ''{\"type\":\"answer\"}''"

definition broken_text :: jstring where
  "broken_text = js ''{nope}''"

definition plain_text :: jstring where
  "plain_text = js ''no braces here''"

section \<open>Properties of the profile builder\<close>

subsection \<open>Keys and scores of the score table\<close>

lemma keys_score_put: "map fst (score_put t g v) = note_seen (map fst t) g"
  by (induction t g v rule: score_put.induct) (auto simp: note_seen_def)

lemma keys_add_genre: "map fst (add_genre w t g) = note_seen (map fst t) g"
  by (simp add: add_genre_def keys_score_put)

lemma keys_foldl_add_genre: "map fst (foldl (add_genre w) t gs) = foldl note_seen (map fst t) gs"
  by (induction gs arbitrary: t) (simp_all add: keys_add_genre)

lemma keys_add_item: "map fst (add_item t i) = foldl note_seen (map fst t) (genres_or_empty i)"
  by (simp add: add_item_def keys_foldl_add_genre)

lemma keys_foldl_add_item:
  "map fst (foldl add_item t ws) = foldl note_seen (map fst t) (concat (map genres_or_empty ws))"
  by (induction ws arbitrary: t) (simp_all add: keys_add_item)

lemma keys_genreScore: "map fst (genreScore its) = first_seen its"
  by (simp add: genreScore_def first_seen_def keys_foldl_add_item)

lemma distinct_note_seen: "distinct acc \<Longrightarrow> distinct (note_seen acc g)"
  by (simp add: note_seen_def)

lemma distinct_foldl_note_seen: "distinct acc \<Longrightarrow> distinct (foldl note_seen acc gs)"
  by (induction gs arbitrary: acc) (simp_all add: distinct_note_seen)

lemma set_foldl_note_seen: "set (foldl note_seen acc gs) = set acc \<union> set gs"
  by (induction gs arbitrary: acc) (auto simp: note_seen_def)

lemma distinct_first_seen: "distinct (first_seen its)"
  by (simp add: first_seen_def distinct_foldl_note_seen)

lemma set_first_seen:
  "set (first_seen its) = (\<Union>i\<in>set (filter watched its). set (genres_or_empty i))"
  by (simp add: first_seen_def set_foldl_note_seen)

lemma score_get_put: "score_get (score_put t g v) h = (if h = g then v else score_get t h)"
  by (induction t g v rule: score_put.induct) (auto simp: score_get_def)

lemma score_get_add_genre:
  "score_get (add_genre w t g) h = score_get t h + (if h = g then w else 0)"
  by (simp add: add_genre_def score_get_put)

lemma score_get_foldl_add_genre:
  "score_get (foldl (add_genre w) t gs) h = score_get t h + w * int (count_list gs h)"
  by (induction gs arbitrary: t) (simp_all add: score_get_add_genre algebra_simps)

lemma score_get_add_item:
  "score_get (add_item t i) h = score_get t h + js_or (rating i) 3 * int (count_list (genres_or_empty i) h)"
  by (simp add: add_item_def score_get_foldl_add_genre)

lemma score_get_foldl_add_item:
  "score_get (foldl add_item t ws) h =
     score_get t h + (\<Sum>i\<leftarrow>ws. js_or (rating i) 3 * int (count_list (genres_or_empty i) h))"
  by (induction ws arbitrary: t) (simp_all add: score_get_add_item)

text \<open>
  For every input, the score of a genre is the sum over the watched items of
  the item's weight times the number of times the item lists the genre.
\<close>

lemma score_get_genreScore:
  "score_get (genreScore its) h =
     (\<Sum>i\<leftarrow>filter watched its. js_or (rating i) 3 * int (count_list (genres_or_empty i) h))"
proof -
  have "score_get [] h = 0" by (simp add: score_get_def)
  then show ?thesis by (simp add: genreScore_def score_get_foldl_add_item)
qed

lemma js_or_valid: "valid_rating r \<Longrightarrow> js_or r 3 = (case r of None \<Rightarrow> 3 | Some v \<Rightarrow> v)"
  by (auto simp: valid_rating_def js_or_def split: option.splits)

lemma count_list_distinct: "distinct xs \<Longrightarrow> count_list xs h = (if h \<in> set xs then 1 else 0)"
  by (induction xs) auto

lemma sum_list_filter_if:
  "(\<Sum>i\<leftarrow>xs. if P i then f i else 0) = sum_list (map f (filter P xs))"
  for f :: "'a \<Rightarrow> int"
  by (induction xs) auto

lemma score_eq_spec:
  assumes "list_all (\<lambda>i. watched i \<longrightarrow> record_ok i) its"
  shows "score_get (genreScore its) h = spec_score its h"
proof -
  have "(\<Sum>i\<leftarrow>filter watched its. js_or (rating i) 3 * int (count_list (genres_or_empty i) h))
      = (\<Sum>i\<leftarrow>filter watched its. if h \<in> set (genres_or_empty i) then spec_weight i else 0)"
    using assms
    by (intro arg_cong[where f=sum_list] map_cong refl)
       (auto simp: list_all_iff record_ok_def js_or_valid spec_weight_def count_list_distinct)
  also have "\<dots> = sum_list (map spec_weight (filter (\<lambda>i. h \<in> set (genres_or_empty i)) (filter watched its)))"
    by (rule sum_list_filter_if)
  also have "\<dots> = spec_score its h"
    by (simp add: spec_score_def conj_commute)
  finally show ?thesis by (simp add: score_get_genreScore)
qed

lemma object_entries_plain:
  "list_all (\<lambda>e. \<not> is_array_index (fst e)) t \<Longrightarrow> object_entries t = t"
  by (simp add: object_entries_def list_all_iff)

lemma map_sort_key_commute:
  "(\<And>x. x \<in> set xs \<Longrightarrow> f x = h (g x)) \<Longrightarrow> map g (sort_key f xs) = sort_key h (map g xs)"
proof (induction xs)
  case Nil then show ?case by simp
next
  case (Cons a xs)
  have ins: "\<And>ys. set ys \<subseteq> set (a # xs) \<Longrightarrow> map g (insort_key f a ys) = insort_key h (g a) (map g ys)"
  proof -
    fix ys show "set ys \<subseteq> set (a # xs) \<Longrightarrow> map g (insort_key f a ys) = insort_key h (g a) (map g ys)"
      using Cons.prems by (induction ys) auto
  qed
  show ?case using Cons ins[of "sort_key f xs"] by auto
qed

lemma entry_score: "(g, s) \<in> set t \<Longrightarrow> distinct (map fst t) \<Longrightarrow> score_get t g = s"
  by (simp add: score_get_def)

lemma snd_entry_genreScore:
  "e \<in> set (genreScore its) \<Longrightarrow> snd e = score_get (genreScore its) (fst e)"
proof -
  assume "e \<in> set (genreScore its)"
  moreover have "distinct (map fst (genreScore its))"
    by (simp add: keys_genreScore distinct_first_seen)
  ultimately show ?thesis using entry_score [of "fst e" "snd e" "genreScore its"] by simp
qed

lemma genreScore_plain:
  assumes "list_all record_ok (filter watched its)"
  shows "list_all (\<lambda>e. \<not> is_array_index (fst e)) (genreScore its)"
proof -
  have "\<And>g. g \<in> set (first_seen its) \<Longrightarrow> \<not> is_array_index g"
    using assms by (auto simp: set_first_seen list_all_iff record_ok_def)
  then have "list_all (\<lambda>g. \<not> is_array_index g) (map fst (genreScore its))"
    by (simp add: keys_genreScore list_all_iff)
  then show ?thesis by (simp add: list_all_iff)
qed

lemma score_eq_spec2:
  assumes "list_all record_ok (filter watched its)"
  shows "score_get (genreScore its) h = spec_score its h"
  using assms by (intro score_eq_spec) (auto simp: list_all_iff)

lemma sorted_const_key: "(\<And>x. x \<in> set ys \<Longrightarrow> f x = c) \<Longrightarrow> sorted (map f ys)"
  for f :: "'a \<Rightarrow> int"
  by (induction ys) auto

text \<open>
  The specification's ranking is sorted by descending score, is a rearrangement
  of the first-seen list, and keeps the names of each score in first-seen order.
\<close>

lemma spec_ranking_stable_descending:
  "sorted (map (\<lambda>g. - spec_score its g) (sort_key (\<lambda>g. - spec_score its g) (first_seen its)))
   \<and> mset (sort_key (\<lambda>g. - spec_score its g) (first_seen its)) = mset (first_seen its)
   \<and> (\<forall>k. filter (\<lambda>g. spec_score its g = k) (sort_key (\<lambda>g. - spec_score its g) (first_seen its))
          = filter (\<lambda>g. spec_score its g = k) (first_seen its))"
proof -
  have "\<And>k. sort_key (\<lambda>g. - spec_score its g) (filter (\<lambda>g. spec_score its g = k) (first_seen its))
       = filter (\<lambda>g. spec_score its g = k) (first_seen its)"
    by (rule sort_key_id_if_sorted, rule sorted_const_key[where c="- k" for k]) simp
  then show ?thesis by (simp add: filter_sort)
qed

text \<open>The example of the specification, evaluated on the code.\<close>

lemma ex4_in_model: "in_model ex4"
  by (simp add: in_model_def item_in_model_def ex4_def sample_def valid_rating_def
      genres_or_empty_def own_name_def object_prototype_keys_def)

lemma ex9_in_model: "in_model ex9a" "in_model ex9b"
  by (simp_all add: in_model_def item_in_model_def ex9a_def ex9b_def sample_def valid_rating_def
      genres_or_empty_def own_name_def object_prototype_keys_def)

lemma ex4_ok: "list_all record_ok (filter watched ex4)"
  by (simp add: ex4_def sample_def record_ok_def valid_rating_def genres_or_empty_def
        is_array_index_def is_digit_def)

lemma ex4_direct: "genreScore ex4 = [(''Drama'', 8), (''Comedy'', 4)]
   \<and> topGenres (buildTasteProfile ex4) = [''Drama'', ''Comedy'']"
  by (simp add: ex4_def sample_def buildTasteProfile_def genreScore_def add_item_def add_genre_def
      score_get_def js_or_def genres_or_empty_def sort_desc_def object_entries_def
      is_array_index_def is_digit_def)

text \<open>
  Claim C4. For well-formed records of the data model (\<open>in_model\<close>: ratings null
  or 1 to 5, no genre named like a member of \<open>Object.prototype\<close>, sums below
  \<open>2 ^ 53\<close>), the score the code gives a genre is the
  sum, over the watched items carrying the genre, of the item's rating (3 for
  an item with no rating), and topGenres is the first-seen genre list sorted by
  descending score, ties in first-seen order, cut to 8 entries. On the
  specification's example Drama scores 8, Comedy scores 4 and topGenres is
  Drama, Comedy (the witness).
\<close>

theorem C4_genre_ranking:
  assumes "in_model its" and "list_all record_ok (filter watched its)"
  shows "(\<forall>g. score_get (genreScore its) g = spec_score its g)
       \<and> topGenres (buildTasteProfile its) = spec_topGenres its"
proof -
  have sc: "\<And>g. score_get (genreScore its) g = spec_score its g"
    using assms(2) by (rule score_eq_spec2)
  have "map fst (sort_desc (genreScore its))
      = sort_key (\<lambda>g. - spec_score its g) (map fst (genreScore its))"
    unfolding sort_desc_def
    by (rule map_sort_key_commute) (simp add: snd_entry_genreScore sc)
  then have "map fst (sort_desc (object_entries (genreScore its)))
      = sort_key (\<lambda>g. - spec_score its g) (first_seen its)"
    using assms(2) by (simp add: object_entries_plain genreScore_plain keys_genreScore)
  then have "topGenres (buildTasteProfile its) = spec_topGenres its"
    by (simp add: buildTasteProfile_def spec_topGenres_def flip: take_map)
  with sc show ?thesis by simp
qed

theorem C4_witness:
  "in_model ex4 \<and> list_all record_ok (filter watched ex4)
   \<and> score_get (genreScore ex4) ''Drama'' = 8
   \<and> score_get (genreScore ex4) ''Comedy'' = 4
   \<and> topGenres (buildTasteProfile ex4) = [''Drama'', ''Comedy'']"
proof -
  have h: "list_all record_ok (filter watched ex4)" by (rule ex4_ok)
  have m: "in_model ex4" by (rule ex4_in_model)
  have "spec_score ex4 ''Drama'' = 8" "spec_score ex4 ''Comedy'' = 4"
    by (simp_all add: spec_score_def ex4_def sample_def genres_or_empty_def spec_weight_def)
  moreover have "first_seen ex4 = [''Drama'', ''Comedy'']"
    by (simp add: first_seen_def ex4_def sample_def genres_or_empty_def note_seen_def)
  ultimately have "spec_topGenres ex4 = [''Drama'', ''Comedy'']"
    by (simp add: spec_topGenres_def)
  then show ?thesis using h m C4_genre_ranking [OF m h]
    by (simp add: \<open>spec_score ex4 ''Drama'' = 8\<close> \<open>spec_score ex4 ''Comedy'' = 4\<close>)
qed

subsection \<open>The four lists\<close>

lemma loved_eq:
  "loved (buildTasteProfile its)
     = map loved_of (filter (\<lambda>i. watched i \<and> (case rating i of None \<Rightarrow> False | Some v \<Rightarrow> 4 \<le> v)) its)"
proof -
  have "filter (\<lambda>i. js_ge (rating i) 4) (filter watched its)
      = filter (\<lambda>i. watched i \<and> (case rating i of None \<Rightarrow> False | Some v \<Rightarrow> 4 \<le> v)) its"
    by (simp add: js_ge_def) (rule filter_cong, auto split: option.splits)
  then show ?thesis by (simp add: buildTasteProfile_def Let_def)
qed

lemma liked_eq:
  "liked (buildTasteProfile its) = map liked_of (filter (\<lambda>i. watched i \<and> rating i = Some 3) its)"
  by (simp add: buildTasteProfile_def Let_def js_strict_eq_def)

lemma watchlist_eq:
  "watchlist (buildTasteProfile its) = map title (filter (\<lambda>i. \<not> watched i) its)"
  by (simp add: buildTasteProfile_def Let_def)

lemma unrated_eq:
  assumes "list_all (\<lambda>i. valid_rating (rating i)) its"
  shows "watchedUnrated (buildTasteProfile its) = map title (filter (\<lambda>i. watched i \<and> rating i = None) its)"
proof -
  have "\<And>i. i \<in> set its \<Longrightarrow> (\<not> js_truthy (rating i)) = (rating i = None)"
    using assms by (fastforce simp: list_all_iff js_truthy_def valid_rating_def split: option.splits)
  then have "filter (\<lambda>i. \<not> js_truthy (rating i)) (filter watched its)
      = filter (\<lambda>i. watched i \<and> rating i = None) its"
    by (simp, intro filter_cong) auto
  then show ?thesis by (simp add: buildTasteProfile_def Let_def)
qed

lemma filter_drop_irrelevant:
  "(\<And>x. P x \<Longrightarrow> Q x) \<Longrightarrow> filter P (filter Q xs) = filter P xs"
  by (induction xs) auto

text \<open>
  Claim C6. For ratings of the data model: loved is the watched items rated 4
  or more, liked the watched items rated exactly 3, watchedUnrated the titles
  of the watched items with no rating, watchlist the titles of the unwatched
  items; and the watched items rated 1 or 2 contribute to none of loved, liked
  and watchedUnrated: removing them from the input changes none of the three.
\<close>

theorem C6_partition:
  assumes "list_all (\<lambda>i. valid_rating (rating i)) its"
  shows "loved (buildTasteProfile its)
           = map loved_of (filter (\<lambda>i. watched i \<and> (case rating i of None \<Rightarrow> False | Some v \<Rightarrow> 4 \<le> v)) its)
       \<and> liked (buildTasteProfile its)
           = map liked_of (filter (\<lambda>i. watched i \<and> rating i = Some 3) its)
       \<and> watchedUnrated (buildTasteProfile its)
           = map title (filter (\<lambda>i. watched i \<and> rating i = None) its)
       \<and> watchlist (buildTasteProfile its)
           = map title (filter (\<lambda>i. \<not> watched i) its)
       \<and> loved (buildTasteProfile (filter (\<lambda>i. \<not> low_rated i) its)) = loved (buildTasteProfile its)
       \<and> liked (buildTasteProfile (filter (\<lambda>i. \<not> low_rated i) its)) = liked (buildTasteProfile its)
       \<and> watchedUnrated (buildTasteProfile (filter (\<lambda>i. \<not> low_rated i) its))
           = watchedUnrated (buildTasteProfile its)"
proof -
  let ?keep = "\<lambda>i. \<not> low_rated i"
  have ok': "list_all (\<lambda>i. valid_rating (rating i)) (filter ?keep its)"
    using assms by (simp add: list_all_iff)
  have l: "filter (\<lambda>i. watched i \<and> (case rating i of None \<Rightarrow> False | Some v \<Rightarrow> 4 \<le> v)) (filter ?keep its)
         = filter (\<lambda>i. watched i \<and> (case rating i of None \<Rightarrow> False | Some v \<Rightarrow> 4 \<le> v)) its"
    by (rule filter_drop_irrelevant) (auto simp: low_rated_def split: option.splits)
  have k: "filter (\<lambda>i. watched i \<and> rating i = Some 3) (filter ?keep its)
         = filter (\<lambda>i. watched i \<and> rating i = Some 3) its"
    by (rule filter_drop_irrelevant) (auto simp: low_rated_def)
  have u: "filter (\<lambda>i. watched i \<and> rating i = None) (filter ?keep its)
         = filter (\<lambda>i. watched i \<and> rating i = None) its"
    by (rule filter_drop_irrelevant) (auto simp: low_rated_def)
  show ?thesis
    unfolding loved_eq liked_eq watchlist_eq unrated_eq [OF assms] unrated_eq [OF ok'] l k u
    by simp
qed

theorem C6_witness:
  "list_all (\<lambda>i. valid_rating (rating i)) ex6
   \<and> map l_title (loved (buildTasteProfile ex6)) = [''A'', ''G'']
   \<and> map k_title (liked (buildTasteProfile ex6)) = [''B'']
   \<and> watchedUnrated (buildTasteProfile ex6) = [''C'']
   \<and> watchlist (buildTasteProfile ex6) = [''E'']"
proof -
  have h: "list_all (\<lambda>i. valid_rating (rating i)) ex6"
    by (simp add: ex6_def sample_def valid_rating_def)
  show ?thesis using h C6_partition [OF h]
    by (simp add: ex6_def sample_def loved_of_def liked_of_def)
qed

subsection \<open>Permuting the input\<close>

lemma sum_list_filter_mset_cong:
  "mset xs = mset ys \<Longrightarrow> sum_list (map f (filter P xs)) = sum_list (map f (filter P ys))"
  for f :: "'a \<Rightarrow> int"
proof -
  assume "mset xs = mset ys"
  then have "mset (map f (filter P xs)) = mset (map f (filter P ys))" by simp
  then show ?thesis by (metis sum_mset_sum_list)
qed

lemma score_perm:
  assumes "mset its' = mset its"
  shows "score_get (genreScore its') g = score_get (genreScore its) g"
  unfolding score_get_genreScore using assms by (rule sum_list_filter_mset_cong)

lemma keys_perm:
  assumes "mset its' = mset its"
  shows "set (first_seen its') = set (first_seen its)"
proof -
  have "set its' = set its" using assms by (rule mset_eq_setD)
  then show ?thesis by (simp add: set_first_seen)
qed

lemma set_table:
  "distinct (map fst t) \<Longrightarrow> set t = (\<lambda>g. (g, score_get t g)) ` set (map fst t)"
proof (intro set_eqI iffI)
  fix e assume d: "distinct (map fst t)" and "e \<in> set t"
  then have "snd e = score_get t (fst e)" using entry_score [of "fst e" "snd e" t] by simp
  then have "e = (fst e, score_get t (fst e))" by (cases e) simp
  with \<open>e \<in> set t\<close> show "e \<in> (\<lambda>g. (g, score_get t g)) ` set (map fst t)" by force
next
  fix e assume d: "distinct (map fst t)" and "e \<in> (\<lambda>g. (g, score_get t g)) ` set (map fst t)"
  then obtain e' where e': "e' \<in> set t" "e = (fst e', score_get t (fst e'))" by auto
  with d have "snd e' = score_get t (fst e')" using entry_score [of "fst e'" "snd e'" t] by simp
  with e' show "e \<in> set t" by (metis prod.collapse)
qed

lemma genreScore_perm:
  assumes "mset its' = mset its"
  shows "mset (genreScore its') = mset (genreScore its)"
proof -
  have d: "distinct (map fst (genreScore its'))" "distinct (map fst (genreScore its))"
    by (simp_all add: keys_genreScore distinct_first_seen)
  have "set (genreScore its') = set (genreScore its)"
    unfolding set_table [OF d(1)] set_table [OF d(2)]
    by (simp add: keys_genreScore keys_perm [OF assms] score_perm [OF assms])
  moreover have "distinct (genreScore its')" "distinct (genreScore its)"
    using d by (simp_all add: distinct_map)
  ultimately show ?thesis by (simp add: set_eq_iff_mset_eq_distinct)
qed

lemma mset_object_entries: "mset (object_entries t) = mset t"
  by (simp add: object_entries_def)

lemma filter_key_singleton:
  "distinct xs \<Longrightarrow> inj_on f (set xs) \<Longrightarrow> k \<in> set xs \<Longrightarrow> filter (\<lambda>x. f k = f x) xs = [k]"
proof (induction xs)
  case Nil then show ?case by simp
next
  case (Cons a xs)
  show ?case
  proof (cases "k = a")
    case True
    have "filter (\<lambda>x. f a = f x) xs = []"
      using Cons.prems by (auto simp: filter_empty_conv inj_on_def)
    with True show ?thesis by simp
  next
    case False
    with Cons.prems have "f k \<noteq> f a" by (auto simp: inj_on_def)
    moreover have "filter (\<lambda>x. f k = f x) xs = [k]"
      using Cons False by (auto simp: inj_on_def)
    ultimately show ?thesis by simp
  qed
qed

lemma sort_key_perm_inj:
  assumes m: "mset ys = mset xs" and d: "distinct xs" and i: "inj_on f (set xs)"
  shows "sort_key f ys = sort_key f xs"
proof (rule properties_for_sort_key)
  show "mset (sort_key f xs) = mset ys" using m by simp
  show "sorted (map f (sort_key f xs))" by simp
  fix k assume "k \<in> set (sort_key f xs)"
  then have kx: "k \<in> set xs" by simp
  have sy: "set ys = set xs" using m by (rule mset_eq_setD)
  have dy: "distinct ys" using m d by (metis mset_eq_imp_distinct_iff)
  have "filter (\<lambda>x. f k = f x) (sort_key f xs) = [k]"
    using d i kx by (intro filter_key_singleton) simp_all
  moreover have "filter (\<lambda>x. f k = f x) ys = [k]"
    using dy i kx sy by (intro filter_key_singleton) simp_all
  ultimately show "filter (\<lambda>x. f k = f x) (sort_key f xs) = filter (\<lambda>x. f k = f x) ys" by simp
qed

lemma map_key_sort_key: "map f (sort_key f xs) = sort (map f xs)"
  by (rule properties_for_sort [symmetric]) simp_all

lemma top_ex9a: "topGenres (buildTasteProfile ex9a) = [''Drama'', ''Comedy'']"
  by (simp add: ex9a_def sample_def buildTasteProfile_def genreScore_def add_item_def add_genre_def
      score_get_def js_or_def genres_or_empty_def sort_desc_def object_entries_def
      is_array_index_def is_digit_def)

lemma top_ex9b: "topGenres (buildTasteProfile ex9b) = [''Comedy'', ''Drama'']"
  by (simp add: ex9b_def sample_def buildTasteProfile_def genreScore_def add_item_def add_genre_def
      score_get_def js_or_def genres_or_empty_def sort_desc_def object_entries_def
      is_array_index_def is_digit_def)

text \<open>
  Claim C9, as stated, fails: two genres with equal scores are ranked in
  first-seen order, and a permutation of the input changes which is seen first.
  The two lists are records of the data model.
\<close>

theorem C9_counterexample:
  "in_model ex9a \<and> in_model ex9b \<and> mset ex9b = mset ex9a
   \<and> topGenres (buildTasteProfile ex9b) \<noteq> topGenres (buildTasteProfile ex9a)"
  by (simp add: top_ex9a top_ex9b ex9_in_model) (simp add: ex9a_def ex9b_def)

text \<open>
  Claim C9, amended. For records of the data model (\<open>in_model\<close>: ratings null or
  1 to 5, no genre named like a member of \<open>Object.prototype\<close>, sums below
  \<open>2 ^ 53\<close>) and every permutation of the input, every genre has the
  same score, loved and liked have the same members (as multisets), and the
  ranking carries the same scores position by position; topGenres itself is the
  same whenever no two genres have equal scores.
\<close>

theorem C9_permutation:
  assumes "mset its' = mset its" and "in_model its"
  shows "(\<forall>g. score_get (genreScore its') g = score_get (genreScore its) g)
       \<and> mset (loved (buildTasteProfile its')) = mset (loved (buildTasteProfile its))
       \<and> mset (liked (buildTasteProfile its')) = mset (liked (buildTasteProfile its))
       \<and> map snd (take 8 (sort_desc (object_entries (genreScore its'))))
           = map snd (take 8 (sort_desc (object_entries (genreScore its))))
       \<and> (distinct (map snd (genreScore its))
            \<longrightarrow> topGenres (buildTasteProfile its') = topGenres (buildTasteProfile its))"
proof -
  let ?E' = "object_entries (genreScore its')" and ?E = "object_entries (genreScore its)"
  have mE: "mset ?E' = mset ?E"
    by (simp add: mset_object_entries genreScore_perm [OF assms(1)])
  have "sort (map (\<lambda>e. - snd e) ?E') = sort (map (\<lambda>e. - snd e) ?E)"
    using mE by (intro properties_for_sort) simp_all
  then have "map (\<lambda>e. - snd e) (sort_desc ?E') = map (\<lambda>e. - snd e) (sort_desc ?E)"
    by (simp add: sort_desc_def map_key_sort_key)
  then have "map (uminus \<circ> (\<lambda>e. - snd e)) (sort_desc ?E') = map (uminus \<circ> (\<lambda>e. - snd e)) (sort_desc ?E)"
    by (metis map_map)
  then have seq: "map snd (sort_desc ?E') = map snd (sort_desc ?E)"
    by (simp add: comp_def)
  have seq8: "map snd (take 8 (sort_desc ?E')) = map snd (take 8 (sort_desc ?E))"
    using seq by (simp flip: take_map)
  have top: "topGenres (buildTasteProfile its') = topGenres (buildTasteProfile its)"
    if nt: "distinct (map snd (genreScore its))"
  proof -
    have "distinct (map snd ?E)"
      using nt by (metis mset_object_entries mset_map mset_eq_imp_distinct_iff)
    then have "distinct ?E" "inj_on (\<lambda>e. - snd e) (set ?E)"
      by (auto simp: distinct_map inj_on_def)
    then have "sort_desc ?E' = sort_desc ?E"
      unfolding sort_desc_def using mE by (intro sort_key_perm_inj)
    then show ?thesis by (simp add: buildTasteProfile_def)
  qed
  have "mset (loved (buildTasteProfile its')) = mset (loved (buildTasteProfile its))"
    "mset (liked (buildTasteProfile its')) = mset (liked (buildTasteProfile its))"
    using assms(1) by (simp_all add: buildTasteProfile_def)
  with score_perm [OF assms(1)] seq8 top show ?thesis by blast
qed

theorem C9_witness:
  "mset ex9c = mset ex4 \<and> in_model ex4 \<and> distinct (map snd (genreScore ex4))
   \<and> topGenres (buildTasteProfile ex9c) = topGenres (buildTasteProfile ex4)
   \<and> score_get (genreScore ex9c) ''Drama'' = 8"
proof -
  have h: "mset ex9c = mset ex4" by (simp add: ex9c_def ex4_def)
  have d: "distinct (map snd (genreScore ex4))" using ex4_direct by simp
  have "score_get (genreScore ex4) ''Drama'' = 8" using ex4_direct by (simp add: score_get_def)
  have m: "in_model ex4" by (rule ex4_in_model)
  then show ?thesis
    using h d \<open>score_get (genreScore ex4) ''Drama'' = 8\<close> C9_permutation [OF h m] by simp
qed

section \<open>Properties of the entity cache\<close>

lemma cache_unsubscribe: "cache (unsubscribe t w) = cache w"
  by (simp add: unsubscribe_def split: option.splits)

lemma cache_onSnapshot: "cache (onSnapshot u t w) = cache w"
  by (simp add: onSnapshot_def)

lemma signed_in_cache: "getAll Movie signed_in_world = [sample_doc]"
  by (simp add: signed_in_world_def deliver_def setUser_def unsubscribe_def onSnapshot_def
      init_world_def getAll_def Let_def)

lemma signed_in_uid: "currentUid signed_in_world = Some ''alice''"
  by (simp add: signed_in_world_def deliver_def setUser_def unsubscribe_def onSnapshot_def
      init_world_def Let_def)

lemma signed_in_writes: "writes signed_in_world = []"
  by (simp add: signed_in_world_def deliver_def setUser_def unsubscribe_def onSnapshot_def
      init_world_def Let_def)

text \<open>
  Claim C1, as stated, fails for a non-null identity: setUser clears the cache
  only in its signed-out branch. After a snapshot was delivered for one user,
  binding another user leaves the first user's records in the cache.
\<close>

theorem C1_counterexample:
  "getAll Movie (setUser (Some ''bob'') signed_in_world) \<noteq> []"
  by (simp add: setUser_def Let_def getAll_def cache_unsubscribe cache_onSnapshot
      signed_in_cache [unfolded getAll_def])

text \<open>
  Claim C1, amended. Binding a falsy identity (null, or the empty string)
  leaves every cached collection empty; binding any other identity leaves every
  cached collection as it was, until the new subscription delivers a snapshot.
\<close>

theorem C1_bind_cache:
  "(\<not> uid_truthy uid \<longrightarrow> getAll c (setUser uid w) = [])
   \<and> (uid_truthy uid \<longrightarrow> getAll c (setUser uid w) = getAll c w)"
  by (auto simp: setUser_def getAll_def uid_truthy_def Let_def cache_unsubscribe cache_onSnapshot
      split: option.splits)

theorem C1_witness:
  "\<not> uid_truthy None \<and> getAll Movie (setUser None signed_in_world) = []
   \<and> uid_truthy (Some ''bob'')
   \<and> getAll Movie (setUser (Some ''bob'') signed_in_world) = [sample_doc]"
  using C1_bind_cache [of None Movie signed_in_world]
        C1_bind_cache [of "Some ''bob''" Movie signed_in_world]
  by (simp add: uid_truthy_def signed_in_cache)

lemma field_obj_set: "field (obj_set d k v) k' = (if k' = k then Some v else field d k')"
  by (induction d k v rule: obj_set.induct) (auto simp: field_def)

lemma field_new_item:
  "field (new_item e now) k =
     (if k = ''notes'' then Some (FStr [])
      else if k = ''rating'' then Some FNull
      else if k = ''watched'' then Some (FBool False)
      else if k = ''addedAt'' then Some (FNum now)
      else field e k)"
  by (simp add: new_item_def obj_assign_def field_obj_set)

lemma find_None_iff_list_ex: "(find P xs \<noteq> None) = list_ex P xs"
  by (induction xs) auto

text \<open>
  Claim C2, as stated, fails: with an identity bound and a candidate that is
  not cached, \<open>addItem\<close> awaits \<open>setDoc\<close> outside any \<open>try\<close>, so a create that the
  remote store rejects reaches the caller as the store's error, and no truthy
  result is returned.
\<close>

theorem C2_counterexample:
  "uid_truthy (currentUid signed_in_world)
   \<and> \<not> already_present Movie other_doc signed_in_world
   \<and> fst (addItem reject_all 1700000000000 Movie other_doc signed_in_world)
       = Inl RemoteUnavailable
   \<and> fst (addItem reject_all 1700000000000 Movie other_doc signed_in_world) \<noteq> Inr True"
proof -
  have q: "\<not> already_present Movie other_doc signed_in_world"
    by (simp add: already_present_def signed_in_cache)
       (simp add: sample_doc_def other_doc_def field_def strict_eq_def)
  have u: "uid_truthy (currentUid signed_in_world)"
    by (simp add: signed_in_uid uid_truthy_def)
  have f: "find (\<lambda>i. strict_eq (field i ''tmdbId'') (field other_doc ''tmdbId''))
             (cache signed_in_world Movie) = None"
    using q by (simp add: already_present_def getAll_def find_None_iff_list_ex [symmetric])
  have "fst (addItem reject_all 1700000000000 Movie other_doc signed_in_world)
      = Inl RemoteUnavailable"
    by (simp add: addItem_def signed_in_uid f setDoc_def reject_all_def Let_def)
  with q u show ?thesis by simp
qed

text \<open>
  Claim C2, amended. When no identity is bound or an entity with the
  candidate's id is cached, addItem returns false and changes nothing (no
  write, same cache). Otherwise it issues exactly one create, of the
  candidate's fields with watched false, rating null, notes empty and addedAt
  the current time, leaves the cache as it was, and returns true when the
  remote store accepts the create; a rejected create reaches the caller as the
  store's error.
\<close>

theorem C2_add:
  "((\<not> uid_truthy (currentUid w) \<or> already_present c e w)
      \<longrightarrow> addItem acc now c e w = (Inr False, w))
   \<and> ((uid_truthy (currentUid w) \<and> \<not> already_present c e w)
      \<longrightarrow> (\<exists>u. currentUid w = Some u
            \<and> writes (snd (addItem acc now c e w))
                = writes w @ [SetDoc (ref u c (field e ''tmdbId'')) (new_item e now)]
            \<and> fst (addItem acc now c e w)
                = (if acc (SetDoc (ref u c (field e ''tmdbId'')) (new_item e now))
                   then Inr True else Inl RemoteUnavailable))
          \<and> cache (snd (addItem acc now c e w)) = cache w)
   \<and> field (new_item e now) ''watched'' = Some (FBool False)
   \<and> field (new_item e now) ''rating'' = Some FNull
   \<and> field (new_item e now) ''notes'' = Some (FStr [])
   \<and> field (new_item e now) ''addedAt'' = Some (FNum now)
   \<and> (\<forall>k. k \<notin> {''addedAt'', ''watched'', ''rating'', ''notes''}
          \<longrightarrow> field (new_item e now) k = field e k)"
proof -
  have a: "(\<not> uid_truthy (currentUid w) \<or> already_present c e w)
      \<longrightarrow> addItem acc now c e w = (Inr False, w)"
    by (auto simp: addItem_def uid_truthy_def already_present_def getAll_def
        find_None_iff_list_ex [symmetric] split: option.splits)
  have b: "(uid_truthy (currentUid w) \<and> \<not> already_present c e w)
      \<longrightarrow> (\<exists>u. currentUid w = Some u
            \<and> writes (snd (addItem acc now c e w))
                = writes w @ [SetDoc (ref u c (field e ''tmdbId'')) (new_item e now)]
            \<and> fst (addItem acc now c e w)
                = (if acc (SetDoc (ref u c (field e ''tmdbId'')) (new_item e now))
                   then Inr True else Inl RemoteUnavailable))
          \<and> cache (snd (addItem acc now c e w)) = cache w"
    by (auto simp: addItem_def uid_truthy_def already_present_def getAll_def setDoc_def Let_def
        find_None_iff_list_ex [symmetric] split: option.splits)
  show ?thesis using a b by (simp add: field_new_item)
qed

theorem C2_witness:
  "already_present Movie sample_doc signed_in_world
   \<and> addItem accept_all 1700000000000 Movie sample_doc signed_in_world = (Inr False, signed_in_world)
   \<and> \<not> uid_truthy (currentUid init_world)
   \<and> addItem accept_all 1700000000000 Movie other_doc init_world = (Inr False, init_world)
   \<and> uid_truthy (currentUid signed_in_world) \<and> \<not> already_present Movie other_doc signed_in_world
   \<and> fst (addItem accept_all 1700000000000 Movie other_doc signed_in_world) = Inr True
   \<and> writes (snd (addItem accept_all 1700000000000 Movie other_doc signed_in_world))
       = [SetDoc (ItemDoc ''alice'' Movie ''604'')
            [(''tmdbId'', FNum 604), (''title'', FStr ''The Matrix Reloaded''),
             (''watched'', FBool False), (''addedAt'', FNum 1700000000000),
             (''rating'', FNull), (''notes'', FStr [])]]
   \<and> getAll Movie (snd (addItem accept_all 1700000000000 Movie other_doc signed_in_world))
       = [sample_doc]"
proof -
  have p: "already_present Movie sample_doc signed_in_world"
    by (simp add: already_present_def signed_in_cache) (simp add: sample_doc_def field_def strict_eq_def)
  have q: "\<not> already_present Movie other_doc signed_in_world"
    by (simp add: already_present_def signed_in_cache)
       (simp add: sample_doc_def other_doc_def field_def strict_eq_def)
  have u0: "\<not> uid_truthy (currentUid init_world)"
    by (simp add: init_world_def uid_truthy_def)
  have u1: "uid_truthy (currentUid signed_in_world)"
    by (simp add: signed_in_uid uid_truthy_def)
  have n: "new_item other_doc 1700000000000 =
      [(''tmdbId'', FNum 604), (''title'', FStr ''The Matrix Reloaded''),
       (''watched'', FBool False), (''addedAt'', FNum 1700000000000),
       (''rating'', FNull), (''notes'', FStr [])]"
    by (simp add: new_item_def other_doc_def obj_assign_def)
  have r: "ref ''alice'' Movie (field other_doc ''tmdbId'') = ItemDoc ''alice'' Movie ''604''"
    by (simp add: ref_def other_doc_def field_def js_String_def int_string_def digit_char_def)
  show ?thesis
    using p q u0 u1
      C2_add [of signed_in_world Movie sample_doc accept_all 1700000000000]
      C2_add [of init_world Movie other_doc accept_all 1700000000000]
      C2_add [of signed_in_world Movie other_doc accept_all 1700000000000]
    by (simp add: signed_in_uid signed_in_writes n r accept_all_def getAll_def
        signed_in_cache [unfolded getAll_def])
qed

section \<open>Properties of the backfill\<close>

lemma keys_build_updates: "set (map fst (build_updates d)) \<subseteq> set descriptive"
  by (auto simp: build_updates_def descriptive_def split: option.splits if_splits)

lemma build_updates_spares: "list_all (\<lambda>k. k \<notin> set user_owned) (map fst (build_updates d))"
  using keys_build_updates [of d] by (auto simp: list_all_iff descriptive_def user_owned_def)

lemma field_obj_assign_other:
  "k \<notin> fst ` set u \<Longrightarrow> field (obj_assign d u) k = field d k"
proof -
  have "k \<notin> fst ` set u \<Longrightarrow> field (foldl (\<lambda>a kv. obj_set a (fst kv) (snd kv)) d u) k = field d k"
    by (induction u arbitrary: d) (auto simp: field_obj_set)
  then show "k \<notin> fst ` set u \<Longrightarrow> field (obj_assign d u) k = field d k"
    by (simp add: obj_assign_def)
qed

lemma user_fields_obj_assign:
  "list_all (\<lambda>k. k \<notin> set user_owned) (map fst u) \<Longrightarrow> user_fields (obj_assign d u) = user_fields d"
  by (auto simp: user_fields_def list_all_iff intro!: field_obj_assign_other)

lemma frame_refl: "frame w w"
  by (simp add: frame_def)

lemma frame_trans: "frame w w' \<Longrightarrow> frame w' w'' \<Longrightarrow> frame w w''"
proof -
  assume a: "frame w w'" and b: "frame w' w''"
  obtain n where n: "writes w' = writes w @ n" "list_all spares_user_fields n"
    using a by (metis append_take_drop_id frame_def)
  obtain m where m: "writes w'' = writes w' @ m" "list_all spares_user_fields m"
    using b by (metis append_take_drop_id frame_def)
  show ?thesis using a b n m by (simp add: frame_def)
qed

lemma frame_updateDoc:
  "list_all (\<lambda>k. k \<notin> set user_owned) (map fst u) \<Longrightarrow> frame w (snd (updateDoc acc p u w))"
  by (auto simp: frame_def updateDoc_def Let_def spares_user_fields_def user_fields_obj_assign
      split: option.splits)

lemma frame_patchItem:
  "list_all (\<lambda>k. k \<notin> set user_owned) (map fst u) \<Longrightarrow> frame w (snd (patchItem acc c tid u w))"
  by (auto simp: patchItem_def frame_refl frame_updateDoc split: option.splits)

lemma frame_fetch_log: "frame w (w\<lparr> fetches := fs \<rparr>)"
  by (simp add: frame_def)

lemma frame_backfill_item: "frame w (backfill_item fetch acc c w item)"
proof -
  let ?w1 = "w\<lparr> fetches := fetches w @ [(c, field item ''tmdbId'')] \<rparr>"
  have 1: "frame w ?w1" by (rule frame_fetch_log)
  show ?thesis
  proof (cases "fetch c (field item ''tmdbId'')")
    case (Inl e)
    then show ?thesis using 1 by (simp add: backfill_item_def Let_def)
  next
    case (Inr d)
    have "frame ?w1 (snd (patchItem acc c (field item ''tmdbId'') (build_updates d) ?w1))"
      by (rule frame_patchItem) (rule build_updates_spares)
    then have "frame w (snd (patchItem acc c (field item ''tmdbId'') (build_updates d) ?w1))"
      using 1 by (rule frame_trans [rotated])
    then show ?thesis using 1 Inr by (simp add: backfill_item_def Let_def)
  qed
qed

lemma frame_foldl_item: "frame w (foldl (backfill_item fetch acc c) w items)"
proof (induction items arbitrary: w)
  case Nil show ?case by (simp add: frame_refl)
next
  case (Cons i items)
  have "frame w (backfill_item fetch acc c w i)" by (rule frame_backfill_item)
  moreover have "frame (backfill_item fetch acc c w i)
      (foldl (backfill_item fetch acc c) (backfill_item fetch acc c w i) items)" by (rule Cons.IH)
  ultimately show ?case by (simp add: frame_trans)
qed

lemma frame_backfill_type: "frame w (backfill_type fetch acc w c)"
  by (simp add: backfill_type_def frame_foldl_item)

lemma frame_backfill: "frame w (backfillMissingData fetch acc w)"
proof -
  have "frame w (backfill_type fetch acc w Movie)" by (rule frame_backfill_type)
  moreover have "frame (backfill_type fetch acc w Movie)
      (backfill_type fetch acc (backfill_type fetch acc w Movie) Tv)" by (rule frame_backfill_type)
  ultimately show ?thesis by (simp add: backfillMissingData_def frame_trans)
qed

text \<open>
  Claim C3. Whatever the detail fetch returns, every write the backfill issues
  is a patch with none of watched, watchedAt, rating and notes among its keys,
  and after the backfill the user-owned fields of every remote document, and
  the cache, are what they were before.
\<close>

theorem C3_backfill_frame:
  "list_all spares_user_fields
      (drop (length (writes w)) (writes (backfillMissingData fetch acc w)))
   \<and> take (length (writes w)) (writes (backfillMissingData fetch acc w)) = writes w
   \<and> (\<forall>p. map_option user_fields (remote (backfillMissingData fetch acc w) p)
           = map_option user_fields (remote w p))
   \<and> cache (backfillMissingData fetch acc w) = cache w"
  using frame_backfill [of w fetch acc] by (simp add: frame_def)

lemma needs_iff_missing: "needs_backfill i = (missing_fields i \<noteq> [])"
  by (auto simp: needs_backfill_def missing_fields_def)

lemma field_Nil: "field [] k = None"
  by (simp add: field_def)

lemma field_append: "field (a @ b) k = (case field a k of None \<Rightarrow> field b k | Some v \<Rightarrow> Some v)"
  by (simp add: field_def map_add_def split: option.splits)

lemma field_single: "field [(k', v)] k = (if k = k' then Some v else None)"
  by (simp add: field_def)

lemma field_build_updates: "field (build_updates d) k = catalog_value d k"
proof -
  have 1: "field (case field d ''tmdbRating'' of
        Some v \<Rightarrow> if v \<noteq> FNull then [(''tmdbRating'', v)] else [] | None \<Rightarrow> []) k
      = (if k = ''tmdbRating'' \<and> \<not> loose_null (field d k) then field d k else None)"
    by (cases "field d ''tmdbRating''") (simp_all add: field_Nil field_single loose_null_def)
  have 2: "field (case field d ''genres'' of
        Some v \<Rightarrow> if has_length (Some v) then [(''genres'', v)] else [] | None \<Rightarrow> []) k
      = (if k = ''genres'' \<and> has_length (field d k) then field d k else None)"
    by (cases "field d ''genres''") (simp_all add: field_Nil field_single has_length_def)
  have 3: "field (case field d ''genreIds'' of
        Some v \<Rightarrow> if has_length (Some v) then [(''genreIds'', v)] else [] | None \<Rightarrow> []) k
      = (if k = ''genreIds'' \<and> has_length (field d k) then field d k else None)"
    by (cases "field d ''genreIds''") (simp_all add: field_Nil field_single has_length_def)
  have 4: "field (case field d ''releaseDate'' of Some v \<Rightarrow> [(''releaseDate'', v)] | None \<Rightarrow> []) k
      = (if k = ''releaseDate'' then field d k else None)"
    by (cases "field d ''releaseDate''") (simp_all add: field_Nil field_single)
  show ?thesis
    unfolding build_updates_def field_append 1 2 3 4 catalog_value_def
    by (simp split: option.splits)
qed

lemma step_writes:
  "writes (backfill_item fetch acc c w i) = writes w @ patches_for fetch (currentUid w) c i"
  by (auto simp: backfill_item_def patches_for_def patchItem_def updateDoc_def Let_def
      split: sum.splits option.splits)

lemma step_fetches:
  "fetches (backfill_item fetch acc c w i) = fetches w @ [(c, field i ''tmdbId'')]"
  by (auto simp: backfill_item_def patchItem_def updateDoc_def Let_def
      split: sum.splits option.splits)

lemma step_uid: "currentUid (backfill_item fetch acc c w i) = currentUid w"
  using frame_backfill_item [of w fetch acc c i] by (simp add: frame_def)

lemma loop_uid: "currentUid (foldl (backfill_item fetch acc c) w items) = currentUid w"
  by (induction items arbitrary: w) (simp_all add: step_uid)

lemma loop_writes:
  "writes (foldl (backfill_item fetch acc c) w items)
     = writes w @ concat (map (patches_for fetch (currentUid w) c) items)"
  by (induction items arbitrary: w) (simp_all add: step_writes step_uid)

lemma loop_fetches:
  "fetches (foldl (backfill_item fetch acc c) w items)
     = fetches w @ map (\<lambda>i. (c, field i ''tmdbId'')) items"
  by (induction items arbitrary: w) (simp_all add: step_fetches)

lemma loop_cache: "cache (foldl (backfill_item fetch acc c) w items) = cache w"
  using frame_foldl_item [of w fetch acc c items] by (simp add: frame_def)

lemma stale_world_simps:
  "cache stale_world Movie = [stale_doc]" "cache stale_world Tv = []"
  "currentUid stale_world = Some ''alice''" "writes stale_world = []" "fetches stale_world = []"
  "remote stale_world = [ItemDoc ''alice'' Movie ''603'' \<mapsto> stale_doc]"
  by (simp_all add: stale_world_def deliver_def setUser_def unsubscribe_def onSnapshot_def
      init_world_def Let_def)

lemma stale_missing: "missing_fields stale_doc = [''tmdbRating'']"
  by (simp add: missing_fields_def stale_doc_def field_def loose_null_def has_length_def)

lemma stale_updates:
  "build_updates catalog_doc =
     [(''tmdbRating'', FNum 82), (''genres'', FList [FStr ''Action'', FStr ''Science Fiction'']),
      (''genreIds'', FList [FNum 28, FNum 878]), (''releaseDate'', FStr ''1999-03-31'')]"
  by (simp add: build_updates_def catalog_doc_def field_def has_length_def)

lemma stale_ref: "ref ''alice'' Movie (field stale_doc ''tmdbId'') = ItemDoc ''alice'' Movie ''603''"
  by (simp add: ref_def stale_doc_def field_def js_String_def int_string_def digit_char_def)

lemma stale_run:
  "backfillMissingData sample_fetch accept_all stale_world
     = stale_world\<lparr> fetches := [(Movie, Some (FNum 603))],
         writes := [UpdateDoc (ItemDoc ''alice'' Movie ''603'') (build_updates catalog_doc)],
         remote := [ItemDoc ''alice'' Movie ''603'' \<mapsto> obj_assign stale_doc (build_updates catalog_doc)] \<rparr>"
proof -
  have n: "needs_backfill stale_doc" by (simp add: needs_iff_missing stale_missing)
  have f: "field stale_doc ''tmdbId'' = Some (FNum 603)" by (simp add: stale_doc_def field_def)
  have nz: "build_updates catalog_doc \<noteq> []" by (simp add: stale_updates)
  have "backfill_item sample_fetch accept_all Movie stale_world stale_doc
      = stale_world\<lparr> fetches := [(Movie, Some (FNum 603))],
         writes := [UpdateDoc (ItemDoc ''alice'' Movie ''603'') (build_updates catalog_doc)],
         remote := [ItemDoc ''alice'' Movie ''603'' \<mapsto> obj_assign stale_doc (build_updates catalog_doc)] \<rparr>"
    using stale_ref
    by (simp add: backfill_item_def Let_def f sample_fetch_def nz patchItem_def updateDoc_def
        stale_world_simps accept_all_def)
  then show ?thesis
    by (simp add: backfillMissingData_def backfill_type_def getAll_def stale_world_simps n)
qed

text \<open>
  A record merged with the patch of a detail: a field the detail provides
  takes the catalogue's value, every other field keeps the record's.
\<close>

lemma field_obj_assign:
  "field (obj_assign d u) k = (case map_of (rev u) k of None \<Rightarrow> field d k | Some v \<Rightarrow> Some v)"
proof -
  have "field (foldl (\<lambda>a kv. obj_set a (fst kv) (snd kv)) d u) k
      = (case map_of (rev u) k of None \<Rightarrow> field d k | Some v \<Rightarrow> Some v)"
  proof (induction u arbitrary: d)
    case Nil
    show ?case by simp
  next
    case (Cons a u)
    show ?case
      by (cases a) (simp add: Cons.IH field_obj_set map_add_def split: option.splits)
  qed
  then show ?thesis by (simp add: obj_assign_def)
qed

lemma map_of_rev_distinct: "distinct (map fst xs) \<Longrightarrow> map_of (rev xs) k = map_of xs k"
proof (induction xs)
  case Nil
  show ?case by simp
next
  case (Cons a xs)
  then have "fst a \<notin> fst ` set xs" and ih: "map_of (rev xs) k = map_of xs k" by simp_all
  then have "k = fst a \<Longrightarrow> map_of xs k = None" by (simp add: map_of_eq_None_iff)
  with ih show ?case by (cases a) (auto simp: map_add_def split: option.splits)
qed

lemma map_of_rev_build_updates: "map_of (rev (build_updates d)) k = field (build_updates d) k"
proof -
  have "distinct (map fst (build_updates d))"
    unfolding build_updates_def
    by (cases "field d ''tmdbRating''"; cases "field d ''genres''"; cases "field d ''genreIds''";
        cases "field d ''releaseDate''") simp_all
  then show ?thesis by (simp add: field_def map_of_rev_distinct)
qed

lemma patched_field:
  "field (obj_assign r (build_updates d)) k
     = (case catalog_value d k of None \<Rightarrow> field r k | Some v \<Rightarrow> Some v)"
  by (simp add: field_obj_assign map_of_rev_build_updates field_build_updates)

text \<open>
  Claim C8, as stated, fails: the patch is built from the fetched detail alone.
  A record that misses only its catalogue score is patched with the score and
  with the catalogue's genres, genre codes and release date, which replace the
  values the record had.
\<close>

theorem C8_counterexample:
  "missing_fields stale_doc = [''tmdbRating'']
   \<and> field stale_doc ''genres'' = Some (FList [FStr ''Drama''])
   \<and> writes (backfillMissingData sample_fetch accept_all stale_world)
       = [UpdateDoc (ItemDoc ''alice'' Movie ''603'')
            [(''tmdbRating'', FNum 82), (''genres'', FList [FStr ''Action'', FStr ''Science Fiction'']),
             (''genreIds'', FList [FNum 28, FNum 878]), (''releaseDate'', FStr ''1999-03-31'')]]
   \<and> remote (backfillMissingData sample_fetch accept_all stale_world) (ItemDoc ''alice'' Movie ''603'')
       = Some [(''tmdbId'', FNum 603), (''title'', FStr ''The Matrix''),
           (''releaseDate'', FStr ''1999-03-31''),
           (''genres'', FList [FStr ''Action'', FStr ''Science Fiction'']),
           (''genreIds'', FList [FNum 28, FNum 878]), (''watched'', FBool True), (''rating'', FNum 5),
           (''notes'', FStr ''again''), (''tmdbRating'', FNum 82)]"
  by (simp add: stale_missing stale_run stale_updates)
     (simp add: stale_doc_def field_def obj_assign_def)

text \<open>
  Claim C8, amended. The backfill fetches the detail of exactly the cached
  records that miss a descriptive field, movies first, each once and in cache
  order; for each it issues at most one patch, which holds every descriptive
  field the fetched detail provides a value for, whether or not the record
  missed that field. Merged into a record, the patch replaces those fields and
  leaves every other field as it was.
\<close>

theorem C8_backfill_patches:
  "fetches (backfillMissingData fetch acc w)
     = fetches w @ map (\<lambda>i. (Movie, field i ''tmdbId'')) (needing Movie w)
                 @ map (\<lambda>i. (Tv, field i ''tmdbId'')) (needing Tv w)
   \<and> writes (backfillMissingData fetch acc w)
     = writes w @ concat (map (patches_for fetch (currentUid w) Movie) (needing Movie w))
                @ concat (map (patches_for fetch (currentUid w) Tv) (needing Tv w))
   \<and> (\<forall>d k. field (build_updates d) k = catalog_value d k)
   \<and> (\<forall>r d k. field (obj_assign r (build_updates d)) k
          = (case catalog_value d k of None \<Rightarrow> field r k | Some v \<Rightarrow> Some v))"
proof -
  let ?w1 = "backfill_type fetch acc w Movie"
  have g: "getAll Tv ?w1 = getAll Tv w"
    by (simp add: getAll_def backfill_type_def loop_cache)
  have u: "currentUid ?w1 = currentUid w"
    by (simp add: backfill_type_def loop_uid)
  have n: "\<And>c. filter needs_backfill (getAll c w) = needing c w"
    by (simp add: needing_def needs_iff_missing [abs_def])
  have "backfillMissingData fetch acc w = backfill_type fetch acc ?w1 Tv"
    by (simp add: backfillMissingData_def)
  then show ?thesis
    by (simp add: backfill_type_def [of fetch acc ?w1] g u n loop_writes loop_fetches
          field_build_updates patched_field)
       (simp add: backfill_type_def n loop_writes loop_fetches)
qed

section \<open>Properties of the resolution of picks\<close>












section \<open>Properties of JSON.parse and of the response handling\<close>

subsection \<open>The parser consumes input and never runs out of fuel\<close>

lemma skip_ws_length: "length (skip_ws s) \<le> length s"
  by (simp add: skip_ws_def length_dropWhile_le)

lemma skip_ws_Cons: "skip_ws s = c # r \<Longrightarrow> length r < length s"
  using skip_ws_length [of s] by simp

lemma skip_ws_Cons_le: "skip_ws s = c # r \<Longrightarrow> Suc (length r) \<le> length s"
  using skip_ws_length [of s] by simp

lemma scan_string_shorter: "scan_string s acc = Some (k, r) \<Longrightarrow> length r < length s"
proof (induction s acc arbitrary: k r rule: scan_string.induct)
  case (1 acc)
  then show ?case by simp
next
  case (2 c cs acc)
  show ?case
  proof (cases "c = 34")
    case True
    with "2.prems" show ?thesis by simp
  next
    case nq: False
    show ?thesis
    proof (cases "c = 92")
      case bs: True
      show ?thesis
      proof (cases cs)
        case Nil
        with "2.prems" nq bs show ?thesis by simp
      next
        case (Cons e r')
        show ?thesis
        proof (cases "e = 117")
          case True
          with "2.prems" nq bs Cons obtain u where u: "hex4 (take 4 r') = Some u"
            and s: "scan_string (drop 4 r') (acc @ [u]) = Some (k, r)"
            by (auto split: option.splits)
          have "length r < length (drop 4 r')"
            using "2.IH"(1) [OF nq bs Cons True u s] .
          then show ?thesis using Cons by simp
        next
          case False
          with "2.prems" nq bs Cons obtain v where v: "simple_escape e = Some v"
            and s: "scan_string r' (acc @ [v]) = Some (k, r)"
            by (auto split: option.splits)
          have "length r < length r'"
            using "2.IH"(2) [OF nq bs Cons False v s] .
          then show ?thesis using Cons by simp
        qed
      qed
    next
      case False
      with "2.prems" nq have c: "\<not> c < 32" and s: "scan_string cs (acc @ [c]) = Some (k, r)"
        by (auto split: if_splits)
      have "length r < length cs" using "2.IH"(3) [OF nq False c s] .
      then show ?thesis by simp
    qed
  qed
qed

lemma length_tl_le: "length (tl xs) \<le> length xs"
  by simp

lemma scan_number_shorter:
  assumes "scan_number s = Some (v, r)"
  shows "length r < length s"
proof -
  define neg where "neg = (case s of c # _ \<Rightarrow> c = 45 | [] \<Rightarrow> False)"
  define s1 where "s1 = (if neg then tl s else s)"
  define ds where "ds = takeWhile is_dec s1"
  define s2 where "s2 = dropWhile is_dec s1"
  define has_frac where "has_frac = (case s2 of c # _ \<Rightarrow> c = 46 | [] \<Rightarrow> False)"
  define s3 where "s3 = (if has_frac then dropWhile is_dec (tl s2) else s2)"
  define has_exp where "has_exp = (case s3 of c # _ \<Rightarrow> c = 101 \<or> c = 69 | [] \<Rightarrow> False)"
  define s4 where "s4 = (if has_exp then tl s3 else s3)"
  define eneg where "eneg = (case s4 of c # _ \<Rightarrow> has_exp \<and> c = 45 | [] \<Rightarrow> False)"
  define epos where "epos = (case s4 of c # _ \<Rightarrow> has_exp \<and> c = 43 | [] \<Rightarrow> False)"
  define s5 where "s5 = (if eneg \<or> epos then tl s4 else s4)"
  define s6 where "s6 = (if has_exp then dropWhile is_dec s5 else s3)"
  have r: "r = s6" and ne: "ds \<noteq> []"
    using assms
    unfolding scan_number_def Let_def neg_def [symmetric] s1_def [symmetric] ds_def [symmetric]
      s2_def [symmetric] has_frac_def [symmetric] s3_def [symmetric] has_exp_def [symmetric]
      s4_def [symmetric] eneg_def [symmetric] epos_def [symmetric] s5_def [symmetric]
      s6_def [symmetric]
    by (auto split: if_splits)
  have "s1 = ds @ s2" by (simp add: ds_def s2_def)
  with ne have 1: "length s2 < length s1" by simp
  have 0: "length s1 \<le> length s" by (simp add: s1_def)
  have 2: "length s3 \<le> length s2"
    using length_dropWhile_le [of is_dec "tl s2"] by (auto simp: s3_def)
  have 3: "length s4 \<le> length s3" by (simp add: s4_def)
  have 4: "length s5 \<le> length s4" by (simp add: s5_def)
  have 5: "length s6 \<le> length s3"
    using length_dropWhile_le [of is_dec s5] 3 4 by (auto simp: s6_def)
  show ?thesis using r 0 1 2 5 by simp
qed

lemma and_then_Parsed:
  "and_then p f = Parsed v r \<Longrightarrow> \<exists>v1 r1. p = Parsed v1 r1 \<and> f v1 r1 = Parsed v r"
  by (cases p) (simp_all add: and_then_def)

lemma and_then_fuel:
  "p \<noteq> OutOfFuel \<Longrightarrow> (\<And>v r. p = Parsed v r \<Longrightarrow> f v r \<noteq> OutOfFuel) \<Longrightarrow> and_then p f \<noteq> OutOfFuel"
  by (cases p) (simp_all add: and_then_def)

lemma value_step_shorter:
  assumes rec: "\<And>m s v r. rec m s = Parsed v r \<Longrightarrow> length r < length s"
    and p: "value_step rec s = Parsed v r"
  shows "length r < length s"
  using p
  unfolding value_step_def
  by (auto split: list.splits if_splits option.splits
      dest!: and_then_Parsed skip_ws_Cons_le scan_string_shorter scan_number_shorter rec)

lemma elements_step_shorter:
  assumes rec: "\<And>m s v r. rec m s = Parsed v r \<Longrightarrow> length r < length s"
    and p: "elements_step rec acc s = Parsed v r"
  shows "length r < length s"
  using p
  unfolding elements_step_def
  by (auto split: list.splits if_splits option.splits
      dest!: and_then_Parsed skip_ws_Cons_le rec)

lemma member_step_shorter:
  assumes rec: "\<And>m s v r. rec m s = Parsed v r \<Longrightarrow> length r < length s"
    and p: "member_step rec acc s = Parsed v r"
  shows "length r < length s"
  using p
  unfolding member_step_def
  by (auto split: list.splits if_splits option.splits
      dest!: and_then_Parsed skip_ws_Cons_le scan_string_shorter rec)

lemma members_step_shorter:
  assumes rec: "\<And>m s v r. rec m s = Parsed v r \<Longrightarrow> length r < length s"
    and p: "members_step rec acc s = Parsed v r"
  shows "length r < length s"
  using p
  unfolding members_step_def
  by (auto split: list.splits if_splits option.splits
      dest!: and_then_Parsed skip_ws_Cons_le rec)

lemma parse_shorter: "parse n m s = Parsed v r \<Longrightarrow> length r < length s"
proof (induction n arbitrary: m s v r)
  case 0
  then show ?case by simp
next
  case (Suc n)
  show ?case
  proof (cases m)
    case PValue
    with Suc.prems have "value_step (parse n) s = Parsed v r" by simp
    then show ?thesis by (rule value_step_shorter [rotated]) (rule Suc.IH)
  next
    case (PElements acc)
    with Suc.prems have "elements_step (parse n) acc s = Parsed v r" by simp
    then show ?thesis by (rule elements_step_shorter [rotated]) (rule Suc.IH)
  next
    case (PMember acc)
    with Suc.prems have "member_step (parse n) acc s = Parsed v r" by simp
    then show ?thesis by (rule member_step_shorter [rotated]) (rule Suc.IH)
  next
    case (PMembers acc)
    with Suc.prems have "members_step (parse n) acc s = Parsed v r" by simp
    then show ?thesis by (rule members_step_shorter [rotated]) (rule Suc.IH)
  qed
qed

lemma value_step_fuel:
  assumes sh: "\<And>m s v r. rec m s = Parsed v r \<Longrightarrow> length r < length s"
    and fu: "\<And>m s. length s < n \<Longrightarrow> rec m s \<noteq> OutOfFuel"
    and l: "length s \<le> n"
  shows "value_step rec s \<noteq> OutOfFuel"
proof (cases "skip_ws s")
  case Nil
  then show ?thesis by (simp add: value_step_def)
next
  case (Cons c r0)
  have l0: "length r0 < n" using skip_ws_Cons [OF Cons] l by simp
  show ?thesis
  proof (cases "skip_ws r0")
    case Nil
    with Cons show ?thesis
      by (auto simp: value_step_def split: option.splits)
  next
    case c2: (Cons d r1)
    have l1: "length (d # r1) < n" using skip_ws_length [of r0] c2 l0 by simp
    have a: "rec (PMember []) (d # r1) \<noteq> OutOfFuel" by (rule fu [OF l1])
    have b: "and_then (rec PValue (d # r1)) (\<lambda>v r''. rec (PElements [v]) r'') \<noteq> OutOfFuel"
    proof (rule and_then_fuel)
      show "rec PValue (d # r1) \<noteq> OutOfFuel" by (rule fu [OF l1])
      fix v r assume "rec PValue (d # r1) = Parsed v r"
      from sh [OF this] l1 have "length r < n" by simp
      then show "rec (PElements [v]) r \<noteq> OutOfFuel" by (rule fu)
    qed
    show ?thesis using Cons c2 a b
      by (auto simp: value_step_def split: option.splits)
  qed
qed

lemma elements_step_fuel:
  assumes sh: "\<And>m s v r. rec m s = Parsed v r \<Longrightarrow> length r < length s"
    and fu: "\<And>m s. length s < n \<Longrightarrow> rec m s \<noteq> OutOfFuel"
    and l: "length s \<le> n"
  shows "elements_step rec acc s \<noteq> OutOfFuel"
proof (cases "skip_ws s")
  case Nil
  then show ?thesis by (simp add: elements_step_def)
next
  case (Cons c r0)
  have l0: "length r0 < n" using skip_ws_Cons [OF Cons] l by simp
  have "and_then (rec PValue r0) (\<lambda>v r'. rec (PElements (acc @ [v])) r') \<noteq> OutOfFuel"
  proof (rule and_then_fuel)
    show "rec PValue r0 \<noteq> OutOfFuel" by (rule fu [OF l0])
    fix v r assume "rec PValue r0 = Parsed v r"
    from sh [OF this] l0 have "length r < n" by simp
    then show "rec (PElements (acc @ [v])) r \<noteq> OutOfFuel" by (rule fu)
  qed
  then show ?thesis using Cons by (simp add: elements_step_def)
qed

lemma member_step_fuel:
  assumes sh: "\<And>m s v r. rec m s = Parsed v r \<Longrightarrow> length r < length s"
    and fu: "\<And>m s. length s < n \<Longrightarrow> rec m s \<noteq> OutOfFuel"
    and l: "length s \<le> n"
  shows "member_step rec acc s \<noteq> OutOfFuel"
proof (cases "skip_ws s")
  case Nil
  then show ?thesis by (simp add: member_step_def)
next
  case (Cons c r0)
  have l0: "length r0 < n" using skip_ws_Cons [OF Cons] l by simp
  show ?thesis
  proof (cases "scan_string r0 []")
    case None
    with Cons show ?thesis by (simp add: member_step_def)
  next
    case (Some kr)
    obtain k r1 where kr: "kr = (k, r1)" by (cases kr)
    have l1: "length r1 < n" using scan_string_shorter [of r0 "[]" k r1] Some kr l0 by simp
    show ?thesis
    proof (cases "skip_ws r1")
      case Nil
      with Cons Some kr show ?thesis by (simp add: member_step_def)
    next
      case c2: (Cons d r2)
      have l2: "length r2 < n" using skip_ws_Cons [OF c2] l1 by simp
      have "and_then (rec PValue r2) (\<lambda>v r3. rec (PMembers (obj_set acc k v)) r3) \<noteq> OutOfFuel"
      proof (rule and_then_fuel)
        show "rec PValue r2 \<noteq> OutOfFuel" by (rule fu [OF l2])
        fix v r assume "rec PValue r2 = Parsed v r"
        from sh [OF this] l2 have "length r < n" by simp
        then show "rec (PMembers (obj_set acc k v)) r \<noteq> OutOfFuel" by (rule fu)
      qed
      then show ?thesis using Cons Some kr c2 by (simp add: member_step_def)
    qed
  qed
qed

lemma members_step_fuel:
  assumes fu: "\<And>m s. length s < n \<Longrightarrow> rec m s \<noteq> OutOfFuel"
    and l: "length s \<le> n"
  shows "members_step rec acc s \<noteq> OutOfFuel"
proof (cases "skip_ws s")
  case Nil
  then show ?thesis by (simp add: members_step_def)
next
  case (Cons c r0)
  have l0: "length r0 < n" using skip_ws_Cons [OF Cons] l by simp
  show ?thesis using Cons fu [OF l0] by (simp add: members_step_def)
qed

lemma parse_never_out_of_fuel: "length s < n \<Longrightarrow> parse n m s \<noteq> OutOfFuel"
proof (induction n arbitrary: m s)
  case 0
  then show ?case by simp
next
  case (Suc n)
  then have l: "length s \<le> n" by simp
  note sh = parse_shorter [of n]
  show ?case
  proof (cases m)
    case PValue
    have "value_step (parse n) s \<noteq> OutOfFuel"
      by (rule value_step_fuel [where n = n]) (rule sh, assumption, rule Suc.IH, assumption, rule l)
    with PValue show ?thesis by simp
  next
    case (PElements acc)
    have "elements_step (parse n) acc s \<noteq> OutOfFuel"
      by (rule elements_step_fuel [where n = n]) (rule sh, assumption, rule Suc.IH, assumption, rule l)
    with PElements show ?thesis by simp
  next
    case (PMember acc)
    have "member_step (parse n) acc s \<noteq> OutOfFuel"
      by (rule member_step_fuel [where n = n]) (rule sh, assumption, rule Suc.IH, assumption, rule l)
    with PMember show ?thesis by simp
  next
    case (PMembers acc)
    have "members_step (parse n) acc s \<noteq> OutOfFuel"
      by (rule members_step_fuel [where n = n]) (rule Suc.IH, assumption, rule l)
    with PMembers show ?thesis by simp
  qed
qed

lemma json_parse_total:
  "json_parse s = None \<longleftrightarrow>
     parse (Suc (length s)) PValue s = SyntaxError
     \<or> (\<exists>v r. parse (Suc (length s)) PValue s = Parsed v r \<and> skip_ws r \<noteq> [])"
  using parse_never_out_of_fuel [of s "Suc (length s)" PValue]
  by (cases "parse (Suc (length s)) PValue s") (auto simp: json_parse_def simp del: parse.simps)

text \<open>
  More fuel changes nothing: with any fuel above the length of the input the
  parser returns what \<open>json_parse\<close> reads.
\<close>

lemma and_then_mono:
  assumes "and_then p f \<noteq> OutOfFuel" and "p' = p"
    and "\<And>v r. p = Parsed v r \<Longrightarrow> f v r \<noteq> OutOfFuel \<Longrightarrow> f' v r = f v r"
  shows "and_then p' f' = and_then p f"
  using assms by (cases p) (simp_all add: and_then_def)

lemma and_then_first: "and_then p f \<noteq> OutOfFuel \<Longrightarrow> p \<noteq> OutOfFuel"
  by (cases p) (simp_all add: and_then_def)

lemma value_step_mono:
  assumes rec: "\<And>m s. rec m s \<noteq> OutOfFuel \<Longrightarrow> rec' m s = rec m s"
    and ok: "value_step rec s \<noteq> OutOfFuel"
  shows "value_step rec' s = value_step rec s"
proof (cases "skip_ws s")
  case Nil
  then show ?thesis by (simp add: value_step_def)
next
  case (Cons c r0)
  show ?thesis
  proof (cases "skip_ws r0")
    case Nil
    with Cons show ?thesis by (simp add: value_step_def)
  next
    case c2: (Cons d r1)
    have a: "c = 123 \<Longrightarrow> d \<noteq> 125 \<Longrightarrow> rec' (PMember []) (d # r1) = rec (PMember []) (d # r1)"
      using ok Cons c2 by (intro rec) (simp add: value_step_def)
    have b: "c \<noteq> 123 \<Longrightarrow> c = 91 \<Longrightarrow> d \<noteq> 93 \<Longrightarrow>
        and_then (rec' PValue (d # r1)) (\<lambda>v r''. rec' (PElements [v]) r'')
        = and_then (rec PValue (d # r1)) (\<lambda>v r''. rec (PElements [v]) r'')"
    proof -
      assume h: "c \<noteq> 123" "c = 91" "d \<noteq> 93"
      with ok Cons c2
      have n: "and_then (rec PValue (d # r1)) (\<lambda>v r''. rec (PElements [v]) r'') \<noteq> OutOfFuel"
        by (simp add: value_step_def)
      show ?thesis
        by (rule and_then_mono [OF n]) (rule rec [OF and_then_first [OF n]], rule rec, assumption)
    qed
    show ?thesis using Cons c2 a b
      by (cases "c = 123"; cases "c = 91"; cases "d = 125"; cases "d = 93")
         (simp_all add: value_step_def)
  qed
qed

lemma elements_step_mono:
  assumes rec: "\<And>m s. rec m s \<noteq> OutOfFuel \<Longrightarrow> rec' m s = rec m s"
    and ok: "elements_step rec acc s \<noteq> OutOfFuel"
  shows "elements_step rec' acc s = elements_step rec acc s"
proof (cases "skip_ws s")
  case Nil
  then show ?thesis by (simp add: elements_step_def)
next
  case (Cons c r0)
  have b: "c \<noteq> 93 \<Longrightarrow> c = 44 \<Longrightarrow>
      and_then (rec' PValue r0) (\<lambda>v r'. rec' (PElements (acc @ [v])) r')
      = and_then (rec PValue r0) (\<lambda>v r'. rec (PElements (acc @ [v])) r')"
  proof -
    assume h: "c \<noteq> 93" "c = 44"
    with ok Cons
    have n: "and_then (rec PValue r0) (\<lambda>v r'. rec (PElements (acc @ [v])) r') \<noteq> OutOfFuel"
      by (simp add: elements_step_def)
    show ?thesis
      by (rule and_then_mono [OF n]) (rule rec [OF and_then_first [OF n]], rule rec, assumption)
  qed
  show ?thesis using Cons b by (simp add: elements_step_def)
qed

lemma member_step_mono:
  assumes rec: "\<And>m s. rec m s \<noteq> OutOfFuel \<Longrightarrow> rec' m s = rec m s"
    and ok: "member_step rec acc s \<noteq> OutOfFuel"
  shows "member_step rec' acc s = member_step rec acc s"
proof (cases "skip_ws s")
  case Nil
  then show ?thesis by (simp add: member_step_def)
next
  case (Cons c r0)
  show ?thesis
  proof (cases "scan_string r0 []")
    case None
    with Cons show ?thesis by (simp add: member_step_def)
  next
    case (Some kr)
    obtain k r1 where kr: "kr = (k, r1)" by (cases kr)
    show ?thesis
    proof (cases "skip_ws r1")
      case Nil
      with Cons Some kr show ?thesis by (simp add: member_step_def)
    next
      case c2: (Cons d r2)
      have b: "c = 34 \<Longrightarrow> d = 58 \<Longrightarrow>
          and_then (rec' PValue r2) (\<lambda>v r3. rec' (PMembers (obj_set acc k v)) r3)
          = and_then (rec PValue r2) (\<lambda>v r3. rec (PMembers (obj_set acc k v)) r3)"
      proof -
        assume h: "c = 34" "d = 58"
        with ok Cons Some kr c2
        have n: "and_then (rec PValue r2) (\<lambda>v r3. rec (PMembers (obj_set acc k v)) r3) \<noteq> OutOfFuel"
          by (simp add: member_step_def)
        show ?thesis
          by (rule and_then_mono [OF n]) (rule rec [OF and_then_first [OF n]], rule rec, assumption)
      qed
      show ?thesis using Cons Some kr c2 b by (simp add: member_step_def)
    qed
  qed
qed

lemma members_step_mono:
  assumes rec: "\<And>m s. rec m s \<noteq> OutOfFuel \<Longrightarrow> rec' m s = rec m s"
    and ok: "members_step rec acc s \<noteq> OutOfFuel"
  shows "members_step rec' acc s = members_step rec acc s"
proof (cases "skip_ws s")
  case Nil
  then show ?thesis by (simp add: members_step_def)
next
  case (Cons c r0)
  have "c \<noteq> 125 \<Longrightarrow> c = 44 \<Longrightarrow> rec' (PMember acc) r0 = rec (PMember acc) r0"
    using ok Cons by (intro rec) (simp add: members_step_def)
  then show ?thesis using Cons by (simp add: members_step_def)
qed

lemma parse_more_fuel: "parse n m s \<noteq> OutOfFuel \<Longrightarrow> parse (Suc n) m s = parse n m s"
proof (induction n arbitrary: m s)
  case 0
  then show ?case by simp
next
  case (Suc n)
  show ?case
  proof (cases m)
    case PValue
    with Suc.prems have "value_step (parse n) s \<noteq> OutOfFuel" by simp
    then have "value_step (parse (Suc n)) s = value_step (parse n) s"
      by (rule value_step_mono [rotated]) (rule Suc.IH)
    with PValue show ?thesis by simp
  next
    case (PElements acc)
    with Suc.prems have "elements_step (parse n) acc s \<noteq> OutOfFuel" by simp
    then have "elements_step (parse (Suc n)) acc s = elements_step (parse n) acc s"
      by (rule elements_step_mono [rotated]) (rule Suc.IH)
    with PElements show ?thesis by simp
  next
    case (PMember acc)
    with Suc.prems have "member_step (parse n) acc s \<noteq> OutOfFuel" by simp
    then have "member_step (parse (Suc n)) acc s = member_step (parse n) acc s"
      by (rule member_step_mono [rotated]) (rule Suc.IH)
    with PMember show ?thesis by simp
  next
    case (PMembers acc)
    with Suc.prems have "members_step (parse n) acc s \<noteq> OutOfFuel" by simp
    then have "members_step (parse (Suc n)) acc s = members_step (parse n) acc s"
      by (rule members_step_mono [rotated]) (rule Suc.IH)
    with PMembers show ?thesis by simp
  qed
qed

lemma parse_any_fuel:
  assumes "length s < n"
  shows "parse (n + k) m s = parse n m s"
proof (induction k)
  case 0
  show ?case by simp
next
  case (Suc k)
  have "parse (n + k) m s \<noteq> OutOfFuel"
    using assms by (intro parse_never_out_of_fuel) simp
  then have "parse (Suc (n + k)) m s = parse (n + k) m s" by (rule parse_more_fuel)
  with Suc show ?case by simp
qed

subsection \<open>The brace span\<close>

lemma brace_span_None:
  "brace_span raw = None \<longleftrightarrow> \<not> (\<exists>pre mid post. raw = pre @ 123 # mid @ 125 # post)"
proof
  assume n: "brace_span raw = None"
  show "\<not> (\<exists>pre mid post. raw = pre @ 123 # mid @ 125 # post)"
  proof
    assume "\<exists>pre mid post. raw = pre @ 123 # mid @ 125 # post"
    then obtain pre mid post where r: "raw = pre @ 123 # mid @ 125 # post" by blast
    have "125 \<in> set (dropWhile (\<lambda>c. c \<noteq> 123) (123 # mid @ 125 # post))" by simp
    moreover have "\<exists>ys. dropWhile (\<lambda>c. c \<noteq> 123) raw = ys @ 123 # mid @ 125 # post"
      unfolding r
    proof (induction pre)
      case Nil
      show ?case by simp
    next
      case (Cons a pre)
      then show ?case by (cases "a = 123") auto
    qed
    ultimately have "125 \<in> set (dropWhile (\<lambda>c. c \<noteq> 123) raw)" by auto
    with n show False by (simp add: brace_span_def Let_def)
  qed
next
  assume a: "\<not> (\<exists>pre mid post. raw = pre @ 123 # mid @ 125 # post)"
  show "brace_span raw = None"
  proof (rule ccontr)
    assume "brace_span raw \<noteq> None"
    then have m: "125 \<in> set (dropWhile (\<lambda>c. c \<noteq> 123) raw)"
      by (simp add: brace_span_def Let_def split: if_splits)
    then have ne: "dropWhile (\<lambda>c. c \<noteq> 123) raw \<noteq> []" by (metis list.set(1) empty_iff)
    then have "hd (dropWhile (\<lambda>c. c \<noteq> 123) raw) = 123"
      using hd_dropWhile [of "\<lambda>c. c \<noteq> 123" raw] by simp
    with ne obtain t where t: "dropWhile (\<lambda>c. c \<noteq> 123) raw = 123 # t"
      by (cases "dropWhile (\<lambda>c. c \<noteq> 123) raw") auto
    with m have "125 \<in> set t" by simp
    then obtain mid post where "t = mid @ 125 # post" by (auto simp: in_set_conv_decomp)
    with t have "raw = takeWhile (\<lambda>c. c \<noteq> 123) raw @ 123 # mid @ 125 # post"
      using takeWhile_dropWhile_id [of "\<lambda>c. c \<noteq> 123" raw] by simp
    with a show False by blast
  qed
qed

lemma brace_span_Some:
  assumes "brace_span raw = Some s"
  shows "\<exists>pre mid post. raw = pre @ s @ post \<and> s = 123 # mid @ [125]
           \<and> 123 \<notin> set pre \<and> 125 \<notin> set post"
proof -
  let ?s0 = "dropWhile (\<lambda>c. c \<noteq> 123) raw" and ?pre = "takeWhile (\<lambda>c. c \<noteq> 123) raw"
  let ?post = "rev (takeWhile (\<lambda>c. c \<noteq> 125) (rev ?s0))"
  from assms have m: "125 \<in> set ?s0" and s: "s = rev (dropWhile (\<lambda>c. c \<noteq> 125) (rev ?s0))"
    by (auto simp: brace_span_def Let_def split: if_splits)
  have raw: "raw = ?pre @ ?s0" by simp
  have s0: "?s0 = s @ ?post"
    unfolding s by (metis rev_append rev_rev_ident takeWhile_dropWhile_id)
  have pre: "123 \<notin> set ?pre" by (auto dest: set_takeWhileD)
  have post: "125 \<notin> set ?post" by (auto dest: set_takeWhileD)
  have ne: "?s0 \<noteq> []" using m by (metis list.set(1) empty_iff)
  then have h0: "hd ?s0 = 123" using hd_dropWhile [of "\<lambda>c. c \<noteq> 123" raw] by simp
  have dne: "dropWhile (\<lambda>c. c \<noteq> 125) (rev ?s0) \<noteq> []"
    using m by simp
  then have sne: "s \<noteq> []" by (simp add: s)
  have "hd (dropWhile (\<lambda>c. c \<noteq> 125) (rev ?s0)) = 125"
    using hd_dropWhile [OF dne] by simp
  then have l: "last s = 125" using dne by (simp add: s last_rev)
  have h: "hd s = 123" using s0 sne h0 by (metis hd_append2)
  obtain mid where "s = 123 # mid @ [125]"
  proof (cases s)
    case Nil
    with sne show ?thesis by simp
  next
    case (Cons a t)
    with h have a: "a = 123" by simp
    show ?thesis
    proof (cases t rule: rev_cases)
      case Nil
      with Cons a l show ?thesis by simp
    next
      case (snoc mid z)
      with Cons l have "z = 125" by simp
      with Cons a snoc that show ?thesis by simp
    qed
  qed
  with raw s0 pre post show ?thesis by metis
qed

lemma object_modes:
  "(parse n (PMember acc) s = Parsed v r \<longrightarrow> (\<exists>fs. v = JObj fs))
   \<and> (parse n (PMembers acc) s = Parsed v r \<longrightarrow> (\<exists>fs. v = JObj fs))"
proof (induction n arbitrary: acc s v r)
  case 0
  show ?case by simp
next
  case (Suc n)
  have a: "parse (Suc n) (PMember acc) s = Parsed v r \<longrightarrow> (\<exists>fs. v = JObj fs)"
    using Suc.IH
    by (auto simp: member_step_def split: list.splits if_splits option.splits
        dest!: and_then_Parsed)
  have b: "parse (Suc n) (PMembers acc) s = Parsed v r \<longrightarrow> (\<exists>fs. v = JObj fs)"
    using Suc.IH
    by (auto simp: members_step_def split: list.splits if_splits option.splits)
  from a b show ?case by simp
qed

lemma json_parse_brace:
  assumes "json_parse (123 # t) = Some v"
  shows "\<exists>fs. v = JObj fs"
proof -
  have ws: "skip_ws (123 # t) = 123 # t" by (simp add: skip_ws_def is_ws_def)
  from assms obtain r where "parse (Suc (length (123 # t))) PValue (123 # t) = Parsed v r"
    by (auto simp: json_parse_def simp del: parse.simps split: outcome.splits if_splits)
  then have "value_step (parse (length (123 # t))) (123 # t) = Parsed v r" by simp
  then show ?thesis
    using object_modes [of "length (123 # t)"]
    by (auto simp: value_step_def ws simp del: parse.simps split: list.splits if_splits)
qed

subsection \<open>Classification\<close>

lemma askAI_valid:
  "valid_request req \<Longrightarrow> askAI req (Inr content) = respond (raw_text content)"
  by (auto simp: valid_request_def askAI_def split: option.splits)

lemma sample_request_valid: "valid_request sample_request"
  by (simp add: valid_request_def sample_request_def js_def js_space_def)

lemma classify_object:
  "classify (JObj fs) =
     (if map_of fs (js ''type'') = Some (JStr (js ''recommendations''))
      then Inr (ReplyRecommendations (items_or_empty fs))
      else if map_of fs (js ''type'') = Some (JStr (js ''answer''))
      then Inr (ReplyAnswer (text_or_empty fs ''heading'') (text_or_empty fs ''text''))
      else Inl type_error)"
  by (simp add: classify_def get_prop_def or_default_def items_or_empty_def text_or_empty_def
      type_error_def)

lemma span_prose: "brace_span prose_text = Some payload_text"
  by (simp add: brace_span_def prose_text_def payload_text_def js_def)

lemma parse_payload: "json_parse payload_text
   = Some (JObj [(js ''type'', JStr (js ''answer'')), (js ''heading'', JStr (js ''H'')),
                 (js ''text'', JStr (js ''T''))])"
  by (simp add: json_parse_def payload_text_def js_def value_step_def member_step_def
      members_step_def and_then_def skip_ws_def is_ws_def)

lemma span_weird: "brace_span weird_text = Some weird_text"
  by (simp add: brace_span_def weird_text_def js_def)

lemma parse_weird: "json_parse weird_text = Some (JObj [(js ''type'', JStr (js ''weird''))])"
  by (simp add: json_parse_def weird_text_def js_def value_step_def member_step_def
      members_step_def and_then_def skip_ws_def is_ws_def)

lemma span_bare: "brace_span bare_text = Some bare_text"
  by (simp add: brace_span_def bare_text_def js_def)

lemma parse_bare: "json_parse bare_text = Some (JObj [(js ''type'', JStr (js ''recommendations''))])"
  by (simp add: json_parse_def bare_text_def js_def value_step_def member_step_def
      members_step_def and_then_def skip_ws_def is_ws_def)

lemma span_bare_answer: "brace_span bare_answer_text = Some bare_answer_text"
  by (simp add: brace_span_def bare_answer_text_def js_def)

lemma parse_bare_answer: "json_parse bare_answer_text = Some (JObj [(js ''type'', JStr (js ''answer''))])"
  by (simp add: json_parse_def bare_answer_text_def js_def value_step_def member_step_def
      members_step_def and_then_def skip_ws_def is_ws_def)

lemma span_broken: "brace_span broken_text = Some broken_text"
  by (simp add: brace_span_def broken_text_def js_def)

lemma parse_broken: "json_parse broken_text = None"
  by (simp add: json_parse_def broken_text_def js_def value_step_def member_step_def
      skip_ws_def is_ws_def)

lemma span_plain: "brace_span plain_text = None"
  by (simp add: brace_span_def plain_text_def js_def)

text \<open>
  Claim C5, as stated, fails in one point: a span that does not parse does not
  fail with the error of a missing span. The syntax error of JSON.parse is
  caught by the outer \<open>catch\<close> and becomes the error "AI request failed.".
\<close>

theorem C5_counterexample:
  "brace_span broken_text = Some broken_text \<and> json_parse broken_text = None
   \<and> respond broken_text = Inl (HttpsError Internal ''AI request failed.'')
   \<and> brace_span plain_text = None
   \<and> respond plain_text = Inl (HttpsError Internal ''Unexpected AI response format.'')
   \<and> respond broken_text \<noteq> respond plain_text"
  by (simp add: respond_def span_broken parse_broken span_plain)

text \<open>
  Claim C5, amended. A span exists exactly when an opening brace is followed
  somewhere by a closing brace, and it runs from the first opening brace through
  the last closing brace. Without a span the request fails with the format
  error; with a span that does not parse it fails with the request-failed
  error. A span that parses is an object: type "recommendations" is accepted
  with missing (or falsy) items as the empty list, type "answer" with missing
  (or falsy) heading and text as empty strings, and every other type fails
  with the type error. The witness holds the specification's examples.
\<close>

theorem C5_extraction_classification:
  "(brace_span raw = None \<longleftrightarrow> \<not> (\<exists>pre mid post. raw = pre @ 123 # mid @ 125 # post))
   \<and> (\<forall>s. brace_span raw = Some s \<longrightarrow>
         (\<exists>pre mid post. raw = pre @ s @ post \<and> s = 123 # mid @ [125]
            \<and> 123 \<notin> set pre \<and> 125 \<notin> set post))
   \<and> (brace_span raw = None \<longrightarrow> respond raw = Inl format_error)
   \<and> (\<forall>s. brace_span raw = Some s \<and> json_parse s = None \<longrightarrow> respond raw = Inl request_failed)
   \<and> (\<forall>s v. brace_span raw = Some s \<and> json_parse s = Some v \<longrightarrow> (\<exists>fs. v = JObj fs))
   \<and> (\<forall>s fs. brace_span raw = Some s \<and> json_parse s = Some (JObj fs) \<longrightarrow>
         respond raw =
           (if map_of fs (js ''type'') = Some (JStr (js ''recommendations''))
            then Inr (ReplyRecommendations (items_or_empty fs))
            else if map_of fs (js ''type'') = Some (JStr (js ''answer''))
            then Inr (ReplyAnswer (text_or_empty fs ''heading'') (text_or_empty fs ''text''))
            else Inl type_error))
   \<and> (\<forall>fs. map_of fs (js ''items'') = None \<longrightarrow> items_or_empty fs = JArr [])
   \<and> (\<forall>fs k. map_of fs (js k) = None \<longrightarrow> text_or_empty fs k = JStr [])
   \<and> (\<forall>req content. valid_request req \<longrightarrow> askAI req (Inr content) = respond (raw_text content))"
proof -
  have 1: "brace_span raw = None \<longleftrightarrow> \<not> (\<exists>pre mid post. raw = pre @ 123 # mid @ 125 # post)"
    by (rule brace_span_None)
  have 2: "\<forall>s. brace_span raw = Some s \<longrightarrow>
         (\<exists>pre mid post. raw = pre @ s @ post \<and> s = 123 # mid @ [125]
            \<and> 123 \<notin> set pre \<and> 125 \<notin> set post)"
    by (blast dest: brace_span_Some)
  have 3: "brace_span raw = None \<longrightarrow> respond raw = Inl format_error"
    by (simp add: respond_def format_error_def)
  have 4: "\<forall>s. brace_span raw = Some s \<and> json_parse s = None \<longrightarrow> respond raw = Inl request_failed"
    by (simp add: respond_def request_failed_def)
  have 5: "\<forall>s v. brace_span raw = Some s \<and> json_parse s = Some v \<longrightarrow> (\<exists>fs. v = JObj fs)"
  proof (intro allI impI)
    fix s v assume a: "brace_span raw = Some s \<and> json_parse s = Some v"
    then obtain mid where "s = 123 # mid @ [125]" by (blast dest: brace_span_Some)
    with a show "\<exists>fs. v = JObj fs" by (auto dest: json_parse_brace)
  qed
  have 6: "\<forall>s fs. brace_span raw = Some s \<and> json_parse s = Some (JObj fs) \<longrightarrow>
         respond raw =
           (if map_of fs (js ''type'') = Some (JStr (js ''recommendations''))
            then Inr (ReplyRecommendations (items_or_empty fs))
            else if map_of fs (js ''type'') = Some (JStr (js ''answer''))
            then Inr (ReplyAnswer (text_or_empty fs ''heading'') (text_or_empty fs ''text''))
            else Inl type_error)"
    by (simp add: respond_def classify_object)
  have 7: "\<forall>fs. map_of fs (js ''items'') = None \<longrightarrow> items_or_empty fs = JArr []"
    by (simp add: items_or_empty_def)
  have 8: "\<forall>fs k. map_of fs (js k) = None \<longrightarrow> text_or_empty fs k = JStr []"
    by (simp add: text_or_empty_def)
  have 9: "\<forall>req content. valid_request req \<longrightarrow> askAI req (Inr content) = respond (raw_text content)"
    by (simp add: askAI_valid)
  from 1 2 3 4 5 6 7 8 9 show ?thesis by (intro conjI)
qed

theorem C5_witness:
  "brace_span prose_text = Some payload_text
   \<and> respond prose_text = Inr (ReplyAnswer (JStr (js ''H'')) (JStr (js ''T'')))
   \<and> brace_span plain_text = None \<and> respond plain_text = Inl format_error
   \<and> brace_span weird_text = Some weird_text \<and> respond weird_text = Inl type_error
   \<and> brace_span bare_text = Some bare_text
   \<and> respond bare_text = Inr (ReplyRecommendations (JArr []))
   \<and> brace_span bare_answer_text = Some bare_answer_text
   \<and> respond bare_answer_text = Inr (ReplyAnswer (JStr []) (JStr []))
   \<and> brace_span broken_text = Some broken_text \<and> json_parse broken_text = None
   \<and> respond broken_text = Inl request_failed
   \<and> valid_request sample_request
   \<and> askAI sample_request (Inr [Some weird_text]) = Inl type_error"
proof -
  note R = C5_extraction_classification
  have a: "respond prose_text = Inr (ReplyAnswer (JStr (js ''H'')) (JStr (js ''T'')))"
    using R [of prose_text, THEN conjunct2, THEN conjunct2, THEN conjunct2, THEN conjunct2,
        THEN conjunct2, THEN conjunct1, rule_format, OF conjI, OF span_prose parse_payload]
    by (simp add: text_or_empty_def json_truthy_def) (simp add: js_def)
  have b: "respond plain_text = Inl format_error"
    using R [of plain_text, THEN conjunct2, THEN conjunct2, THEN conjunct1] span_plain by simp
  have c: "respond weird_text = Inl type_error"
    using R [of weird_text, THEN conjunct2, THEN conjunct2, THEN conjunct2, THEN conjunct2,
        THEN conjunct2, THEN conjunct1, rule_format, OF conjI, OF span_weird parse_weird]
    by (simp add: js_def)
  have d: "respond bare_text = Inr (ReplyRecommendations (JArr []))"
    using R [of bare_text, THEN conjunct2, THEN conjunct2, THEN conjunct2, THEN conjunct2,
        THEN conjunct2, THEN conjunct1, rule_format, OF conjI, OF span_bare parse_bare]
    by (simp add: items_or_empty_def) (simp add: js_def)
  have e: "respond broken_text = Inl request_failed"
    using R [of broken_text, THEN conjunct2, THEN conjunct2, THEN conjunct2, THEN conjunct1,
        rule_format, OF conjI, OF span_broken parse_broken] .
  have f: "respond bare_answer_text = Inr (ReplyAnswer (JStr []) (JStr []))"
    using R [of bare_answer_text, THEN conjunct2, THEN conjunct2, THEN conjunct2, THEN conjunct2,
        THEN conjunct2, THEN conjunct1, rule_format, OF conjI, OF span_bare_answer parse_bare_answer]
    by (simp add: text_or_empty_def) (simp add: js_def)
  have v: "valid_request sample_request" by (rule sample_request_valid)
  have "raw_text [Some weird_text] = weird_text"
    by (simp add: raw_text_def weird_text_def js_def)
  then have g: "askAI sample_request (Inr [Some weird_text]) = Inl type_error"
    using R [of weird_text, THEN conjunct2, THEN conjunct2, THEN conjunct2, THEN conjunct2,
        THEN conjunct2, THEN conjunct2, THEN conjunct2, THEN conjunct2, rule_format, OF v,
        of "[Some weird_text]"] c
    by simp
  from span_prose a span_plain b span_weird c span_bare d span_bare_answer f
    span_broken parse_broken e v g
  show ?thesis by (intro conjI)
qed

lemma raw_text_no_text: "no_text content \<Longrightarrow> raw_text content = js ''{}''"
  by (auto simp: no_text_def raw_text_def split: list.splits)

lemma span_empty_object: "brace_span (js ''{}'') = Some (js ''{}'')"
  by (simp add: brace_span_def js_def)

lemma parse_empty_object: "json_parse (js ''{}'') = Some (JObj [])"
  by (simp add: json_parse_def js_def value_step_def skip_ws_def is_ws_def)

lemma respond_empty_object: "respond (js ''{}'') = Inl type_error"
  by (simp add: respond_def span_empty_object parse_empty_object classify_def get_prop_def
      type_error_def)

text \<open>
  Claim C10. When the message has no text, the raw text is the two characters
  of the empty object; that text has a brace span and parses to an object
  without a type, so a request that passed the guards fails with the type
  error and not with the format error.
\<close>

theorem C10_no_text:
  assumes "valid_request req" and "no_text content"
  shows "raw_text content = js ''{}''
       \<and> brace_span (raw_text content) = Some (js ''{}'')
       \<and> json_parse (js ''{}'') = Some (JObj [])
       \<and> get_prop (JObj []) ''type'' = None
       \<and> askAI req (Inr content) = Inl type_error
       \<and> askAI req (Inr content) \<noteq> Inl format_error"
  using assms
  by (simp add: askAI_valid raw_text_no_text span_empty_object parse_empty_object
      respond_empty_object get_prop_def type_error_def format_error_def)

theorem C10_witness:
  "valid_request sample_request \<and> no_text [] \<and> no_text [None, Some (js ''late text'')]
   \<and> askAI sample_request (Inr []) = Inl (HttpsError Internal ''Unexpected AI response type.'')
   \<and> askAI sample_request (Inr [None, Some (js ''late text'')])
       = Inl (HttpsError Internal ''Unexpected AI response type.'')"
proof -
  have v: "valid_request sample_request" by (rule sample_request_valid)
  have a: "no_text []" and b: "no_text [None, Some (js ''late text'')]"
    by (simp_all add: no_text_def)
  show ?thesis
    using v a b C10_no_text [OF v a] C10_no_text [OF v b] by (simp add: type_error_def)
qed

end
